theory Spec2Isabelle
  imports Main
begin

section \<open>Values shared by both components\<close>

text \<open>
  A JavaScript call either returns a value or throws. \<open>JSON.parse\<close> and
  \<open>ProtectApiUpdates.decodeUpdatePacket\<close> are not part of the two source files; the
  functions below take them as parameters of this type.
\<close>

datatype 'a js_result = Returns 'a | Throws

type_synonym frame = string

type_synonym json = string

text \<open>
  Modelled from the spec: \<open>type ControllerType\<close> is declared outside the source
  files; the spec gives the controller variant two values, the OS console and the legacy
  controller. The code names the first \<open>'UniFiOSConsole'\<close>.
\<close>

datatype ControllerType = UniFiOSConsole | UniFiController

text \<open>\<open>AccessControllerNodeConfigType\<close>; an optional field is an \<open>option\<close>.\<close>

record config =
  controllerIp :: string
  controllerPort :: "string option"
  controllerType_cfg :: "ControllerType option"

text \<open>
  The module \<open>../Endpoints\<close> is outside the source files. Its constant
  \<open>endpoints\<close> is a parameter of every function that reads it:
  \<open>endpoints.protocol.base\<close>, \<open>endpoints.protocol.webSocket\<close> and, for each
  controller type, \<open>login.url\<close>, \<open>login.retry\<close> (milliseconds) and \<open>logout.url\<close>.
\<close>

record endpoint_entry =
  login_url :: string
  login_retry :: nat
  logout_url :: string

record endpoints =
  protocol_base :: string
  protocol_webSocket :: string
  controller :: "ControllerType \<Rightarrow> endpoint_entry"

section \<open>The shared realtime channel: class \<open>SharedProtectWebSocket\<close>\<close>

text \<open>
  \<open>interface Interest { deviceId: string; callback: WSDataCallback }\<close>.
  A callback is code of a consumer. It is represented by an identifier; what the code does
  when it is called is a parameter of the functions below (see \<open>handlers\<close>).
\<close>

record Interest =
  deviceId :: string
  callback :: nat

text \<open>
  The object created by \<open>new WebSocket(url, {headers: {Cookie: ...}})\<close>. \<open>Connect\<close>
  calls \<open>on\<close> once on it, for \<open>message\<close>; a socket has this listener and no other.
\<close>

record socket =
  ws_url :: string
  ws_cookie :: "string option"

text \<open>
  The fields of the class. \<open>bootstrap\<close> is used only through
  \<open>bootstrap.lastUpdateId\<close>. The field \<open>callbacks\<close> of the class is a JavaScript
  object used as a dictionary. \<open>callbacks\<close> are its own properties, in the order in which
  the keys were first assigned, which is the order of \<open>Object.keys\<close> for keys that are not
  array indices (the general theorems below speak about which callbacks are called and how
  often, not about their order; the concrete channels use keys that are not array indices).
  \<open>callbacks_proto\<close> is the prototype of the object once an assignment has replaced it;
  \<open>None\<close> stands for \<open>Object.prototype\<close>.
\<close>

record channel =
  bootstrap_lastUpdateId :: string
  callbacks :: "(string \<times> Interest) list"
  callbacks_proto :: "Interest option"
  WS :: "socket option"
  Config :: config

text \<open>
  What the class does that is visible outside of it. \<open>Uncaught\<close> is an exception that
  leaves a listener, or that the event emitter raises itself, into the event loop.
\<close>

datatype 'p action =
    NewWebSocket string "string option"
  | JSONParse frame
  | DecodeUpdatePacket frame
  | Callback string nat 'p
  | Uncaught

text \<open>Events that the \<open>ws\<close> library emits on a socket.\<close>

datatype ws_event = Message frame | Close | Error

text \<open>
  Assignment to an own property: an existing key keeps its place, a new key goes last.
\<close>

fun assign :: "string \<Rightarrow> 'v \<Rightarrow> (string \<times> 'v) list \<Rightarrow> (string \<times> 'v) list" where
  "assign k v [] = [(k, v)]"
| "assign k v ((k', v') # rest) =
     (if k' = k then (k, v) # rest else (k', v') # assign k v rest)"

text \<open>\<open>delete obj[k]\<close>: it removes an own property; no error when the key is absent.\<close>

definition delete_key :: "string \<Rightarrow> (string \<times> 'v) list \<Rightarrow> (string \<times> 'v) list" where
  "delete_key k ps = filter (\<lambda>p. fst p \<noteq> k) ps"

text \<open>The own property \<open>k\<close>, \<open>None\<close> when there is none.\<close>

definition lookup :: "(string \<times> 'v) list \<Rightarrow> string \<Rightarrow> 'v option" where
  "lookup ps k = map_of ps k"

text \<open>
  \<open>this.callbacks[nodeId] = interest\<close>. The object is created as \<open>{}\<close>, so the key
  \<open>__proto__\<close> is the accessor it inherits from \<open>Object.prototype\<close>: assigning an
  object to it replaces the prototype and creates no own property. Every other key is
  created or overwritten as an own property.
\<close>

definition registerInterest :: "string \<Rightarrow> Interest \<Rightarrow> channel \<Rightarrow> channel" where
  "registerInterest nodeId interest ch =
     (if nodeId = ''__proto__'' then ch\<lparr>callbacks_proto := Some interest\<rparr>
      else ch\<lparr>callbacks := assign nodeId interest (callbacks ch)\<rparr>)"

definition degisterInterest :: "string \<Rightarrow> channel \<Rightarrow> channel" where
  "degisterInterest nodeId ch = ch\<lparr>callbacks := delete_key nodeId (callbacks ch)\<rparr>"

definition updateLastUpdateId :: "string \<Rightarrow> channel \<Rightarrow> channel" where
  "updateLastUpdateId newLastUpdateId ch = ch\<lparr>bootstrap_lastUpdateId := newLastUpdateId\<rparr>"

text \<open>
  \<open>Connect\<close>. The second argument is the value that the awaited
  \<open>AccessController.getAuthCookie()\<close> delivers. The only listener installed on the new
  socket is the one for \<open>message\<close>. The doc comment above the class says that
  \<open>DEFAULT_RECONNECT_TIMEOUT\<close> is the time to wait until the next try to connect in case
  of an error or of a socket closed by the server; the constant itself is commented out and
  nothing in the class refers to it.
\<close>

definition Connect_url :: "endpoints \<Rightarrow> channel \<Rightarrow> string" where
  "Connect_url E ch =
     protocol_webSocket E @ controllerIp (Config ch) @
       ''/proxy/protect/ws/updates?lastUpdateId='' @ bootstrap_lastUpdateId ch"

definition Connect :: "endpoints \<Rightarrow> string option \<Rightarrow> channel \<Rightarrow> 'p action list \<times> channel" where
  "Connect E cookie ch =
     ([NewWebSocket (Connect_url E ch) cookie],
      ch\<lparr>WS := Some \<lparr>ws_url = Connect_url E ch, ws_cookie = cookie\<rparr>\<rparr>)"

text \<open>
  The constructor: stores its arguments, starts with \<open>callbacks = {}\<close> and calls
  \<open>Connect\<close>.
\<close>

definition new_channel ::
  "endpoints \<Rightarrow> string option \<Rightarrow> config \<Rightarrow> string \<Rightarrow> 'p action list \<times> channel" where
  "new_channel E cookie cfg initialLastUpdateId =
     Connect E cookie
       \<lparr>bootstrap_lastUpdateId = initialLastUpdateId, callbacks = [], callbacks_proto = None,
        WS = None, Config = cfg\<rparr>"

subsection \<open>Callbacks\<close>

text \<open>
  What a callback can do to the channel while it runs: call one of the three methods that
  take effect at once. (\<open>Connect\<close> assigns \<open>WS\<close> only after its \<open>await\<close>, that is
  after the dispatch.)
\<close>

datatype handler_call =
    CallRegisterInterest string Interest
  | CallDegisterInterest string
  | CallUpdateLastUpdateId string

definition apply_call :: "handler_call \<Rightarrow> channel \<Rightarrow> channel" where
  "apply_call c ch =
     (case c of
        CallRegisterInterest nodeId interest \<Rightarrow> registerInterest nodeId interest ch
      | CallDegisterInterest nodeId \<Rightarrow> degisterInterest nodeId ch
      | CallUpdateLastUpdateId b \<Rightarrow> updateLastUpdateId b ch)"

definition apply_calls :: "handler_call list \<Rightarrow> channel \<Rightarrow> channel" where
  "apply_calls cs ch = fold apply_call cs ch"

text \<open>
  The behaviour of the callbacks, a parameter: for a callback and the payload it is called
  with, the calls it makes into the channel, in order, and whether it then throws.
\<close>

type_synonym 'p handlers = "nat \<Rightarrow> 'p \<Rightarrow> handler_call list \<times> bool"

text \<open>\<open>Object.keys(obj)\<close>: the own keys.\<close>

definition Object_keys :: "(string \<times> 'v) list \<Rightarrow> string list" where
  "Object_keys ps = map fst ps"

text \<open>
  \<open>Object.keys(this.callbacks).forEach((Node) => this.callbacks[Node].callback(objectToSend))\<close>.
  The keys are taken once, before the loop; \<open>this.callbacks[Node]\<close> is read when the turn
  of \<open>Node\<close> comes. There is no \<open>try\<close> in the loop: a callback that throws ends it.
  When the own property \<open>Node\<close> is gone by then, the read goes to the prototype chain,
  where no value has a \<open>callback\<close> that can be called (\<open>__proto__\<close> is never an own
  key), so the call raises a \<open>TypeError\<close>, which ends the loop as well. The
  \<open>deviceId\<close> of an Interest is not read. The result is the list of calls made, whether
  an exception left the loop, and the channel after the calls of the callbacks.
\<close>

fun forEach_callback ::
  "'p handlers \<Rightarrow> 'p \<Rightarrow> string list \<Rightarrow> channel \<Rightarrow> 'p action list \<times> bool \<times> channel" where
  "forEach_callback H objectToSend [] ch = ([], False, ch)"
| "forEach_callback H objectToSend (Node # Nodes) ch =
     (case lookup (callbacks ch) Node of
        None \<Rightarrow> ([], True, ch)
      | Some i \<Rightarrow>
          (case H (callback i) objectToSend of
             (calls, throws) \<Rightarrow>
               if throws then
                 ([Callback Node (callback i) objectToSend], True, apply_calls calls ch)
               else
                 (case forEach_callback H objectToSend Nodes (apply_calls calls ch) of
                    (acts, escaped, ch') \<Rightarrow>
                      (Callback Node (callback i) objectToSend # acts, escaped, ch'))))"

definition dispatch ::
  "'p handlers \<Rightarrow> 'p \<Rightarrow> channel \<Rightarrow> 'p action list \<times> bool \<times> channel" where
  "dispatch H objectToSend ch =
     forEach_callback H objectToSend (Object_keys (callbacks ch)) ch"

subsection \<open>The listener and the events of the socket\<close>

text \<open>
  The \<open>message\<close> listener. There is no \<open>try\<close> around the call of the decoder either.
  The result is as for the loop; the listener itself assigns no field of the channel.
\<close>

definition on_message ::
  "'p handlers \<Rightarrow> (frame \<Rightarrow> 'p js_result) \<Rightarrow> (frame \<Rightarrow> 'p js_result) \<Rightarrow> frame \<Rightarrow> channel \<Rightarrow>
     'p action list \<times> bool \<times> channel" where
  "on_message H JSON_parse decodeUpdatePacket data ch =
     (case JSON_parse data of
        Returns objectToSend \<Rightarrow>
          (case dispatch H objectToSend ch of
             (acts, escaped, ch') \<Rightarrow> (JSONParse data # acts, escaped, ch'))
      | Throws \<Rightarrow>
          (case decodeUpdatePacket data of
             Returns objectToSend \<Rightarrow>
               (case dispatch H objectToSend ch of
                  (acts, escaped, ch') \<Rightarrow>
                    (JSONParse data # DecodeUpdatePacket data # acts, escaped, ch'))
           | Throws \<Rightarrow> ([JSONParse data, DecodeUpdatePacket data], True, ch)))"

text \<open>
  An event emitted on the channel's current socket. \<open>message\<close> runs the listener, and an
  exception that leaves it is uncaught. \<open>close\<close> has no listener: no code of the class
  runs. \<open>error\<close> has no listener either, and for this event name an emitter without
  listener throws.
\<close>

definition ws_emit ::
  "'p handlers \<Rightarrow> (frame \<Rightarrow> 'p js_result) \<Rightarrow> (frame \<Rightarrow> 'p js_result) \<Rightarrow> ws_event \<Rightarrow> channel \<Rightarrow>
     'p action list \<times> channel" where
  "ws_emit H JSON_parse decodeUpdatePacket ev ch =
     (case WS ch of
        None \<Rightarrow> ([], ch)
      | Some sock \<Rightarrow>
          (case ev of
             Message data \<Rightarrow>
               (case on_message H JSON_parse decodeUpdatePacket data ch of
                  (acts, escaped, ch') \<Rightarrow> (if escaped then acts @ [Uncaught] else acts, ch'))
           | Close \<Rightarrow> ([], ch)
           | Error \<Rightarrow> ([Uncaught], ch)))"

text \<open>
  Calls into the channel and events on its socket, in the order in which the event loop runs
  them.
\<close>

datatype channel_input =
    RegisterInterest string Interest
  | DegisterInterest string
  | UpdateLastUpdateId string
  | CallConnect "string option"
  | Emit ws_event

definition channel_step ::
  "endpoints \<Rightarrow> 'p handlers \<Rightarrow> (frame \<Rightarrow> 'p js_result) \<Rightarrow> (frame \<Rightarrow> 'p js_result) \<Rightarrow>
     channel_input \<Rightarrow> channel \<Rightarrow> 'p action list \<times> channel" where
  "channel_step E H JSON_parse decodeUpdatePacket inp ch =
     (case inp of
        RegisterInterest nodeId interest \<Rightarrow> ([], registerInterest nodeId interest ch)
      | DegisterInterest nodeId \<Rightarrow> ([], degisterInterest nodeId ch)
      | UpdateLastUpdateId b \<Rightarrow> ([], updateLastUpdateId b ch)
      | CallConnect cookie \<Rightarrow> Connect E cookie ch
      | Emit ev \<Rightarrow> ws_emit H JSON_parse decodeUpdatePacket ev ch)"

fun channel_run ::
  "endpoints \<Rightarrow> 'p handlers \<Rightarrow> (frame \<Rightarrow> 'p js_result) \<Rightarrow> (frame \<Rightarrow> 'p js_result) \<Rightarrow>
     channel_input list \<Rightarrow> channel \<Rightarrow> 'p action list \<times> channel" where
  "channel_run E H JSON_parse decodeUpdatePacket [] ch = ([], ch)"
| "channel_run E H JSON_parse decodeUpdatePacket (inp # inps) ch =
     (case channel_step E H JSON_parse decodeUpdatePacket inp ch of
        (acts, ch') \<Rightarrow>
          (case channel_run E H JSON_parse decodeUpdatePacket inps ch' of
             (acts', ch'') \<Rightarrow> (acts @ acts', ch'')))"

section \<open>The session manager: node \<open>unifi-access-controller\<close>\<close>

subsection \<open>Promises, outcomes of HTTP calls, timers\<close>

text \<open>
  What a rejected promise carries: \<open>HttpError s\<close> is an error for which
  \<open>error instanceof HttpError\<close> holds, with \<open>error.status = s\<close>; \<open>AbortError\<close> is
  the rejection of a call whose abort signal fired; \<open>JsError msg\<close> is \<open>new Error(msg)\<close>;
  \<open>OtherError\<close> is any other value.
\<close>

datatype js_error = HttpError nat | AbortError | JsError string | OtherError

datatype 'a promise = Pending | Fulfilled 'a | Rejected js_error

text \<open>
  How the promise of \<open>Axios.post(login)\<close> settles: fulfilled with a response, of which
  the code reads \<open>status\<close> and \<open>headers['set-cookie']\<close>, or rejected.
\<close>

datatype login_outcome = LoginResponse nat "string list option" | LoginRejected js_error

text \<open>How the promise of \<open>Axios.request\<close> settles; of a response the code reads \<open>data\<close>.\<close>

datatype request_outcome = Response json | RequestRejected js_error

text \<open>
  A pending \<open>setTimeout\<close>: of \<open>authenticateWithRetry\<close> for the promise with the given
  number, or of \<open>axiosRequest\<close> for the request with the given number.
\<close>

datatype timer = LoginRetry nat | Resend nat

text \<open>
  What runs when a promise returned by \<open>getAuthCookie\<close> is fulfilled: the rest of
  \<open>axiosRequest\<close> after its \<open>await\<close>, or the \<open>then\<close> handler of \<open>refresh(init)\<close>.
\<close>

datatype waiter = AwaitInRequest nat | RefreshThen "bool option"

text \<open>
  What \<open>getAuthCookie\<close> returns: \<open>Promise.resolve(self.authCookie)\<close> or a new
  promise.
\<close>

datatype cookie_promise = Settled "string option" | Created nat

text \<open>
  Calls that leave the node: the login call of a promise (url, username, password), the
  request call of a request (url, method, data, cookie header, request id header), the logout
  call, \<open>setTimeout\<close> with its delay, a rejected promise that nobody holds, and
  \<open>RED.events.emit\<close>.
\<close>

datatype effect =
    AxiosPostLogin nat string string string
  | AxiosRequest nat string "string option" "json option" string string
  | AxiosPostLogout string
  | SetTimeout timer nat
  | FloatingRejection js_error
  | EventsEmit string

text \<open>
  The arguments of one call of \<open>self.request\<close> (the closure of its \<open>axiosRequest\<close>) and
  the promise it returned.
\<close>

record request_rec =
  req_nodeId :: string
  req_url :: string
  req_method :: "string option"
  req_data :: "json option"
  req_responseType :: "string option"
  req_promise :: "json promise"

text \<open>
  The node. \<open>aborted\<close> is \<open>abortController.signal.aborted\<close>; \<open>refreshTimeout\<close> says
  whether the 45 minute interval is still set. The promises created by \<open>getAuthCookie\<close>
  and the calls of \<open>request\<close> are numbered in the order of their creation.
  \<open>loginsInFlight\<close> and \<open>requestsInFlight\<close> are the HTTP calls that have not settled,
  \<open>thenBootstrap\<close> the requests made by \<open>getBootstrap\<close>.
\<close>

record AccessController =
  node_config :: config
  node_id :: string
  username :: string
  password :: string
  initialized :: bool
  authenticated :: bool
  stopped :: bool
  controllerType :: ControllerType
  aborted :: bool
  authCookie :: "string option"
  bootstrapObject :: "json option"
  refreshTimeout :: bool
  cookiePromises :: "string option promise list"
  waiters :: "(nat \<times> waiter) list"
  loginsInFlight :: "nat list"
  requests :: "request_rec list"
  requestsInFlight :: "nat list"
  thenBootstrap :: "nat list"
  timers :: "timer list"
  effects :: "effect list"

subsection \<open>The functions of the node\<close>

text \<open>JavaScript truth of a value that is a string or \<open>undefined\<close>.\<close>

definition truthy :: "string option \<Rightarrow> bool" where
  "truthy v = (case v of None \<Rightarrow> False | Some str \<Rightarrow> str \<noteq> [])"

text \<open>
  \<open>String.prototype.trim\<close>. A string is its sequence of bytes in UTF-8; trim removes,
  at both ends, the white space and line terminator characters of the language: U+0009 to
  U+000D, U+0020, U+00A0, U+1680, U+2000 to U+200A, U+2028, U+2029, U+202F, U+205F, U+3000
  and U+FEFF.
\<close>

definition white_space :: "string list" where
  "white_space =
     [[CHR 0x09], [CHR 0x0A], [CHR 0x0B], [CHR 0x0C], [CHR 0x0D], [CHR 0x20],
      [CHR 0xC2, CHR 0xA0], [CHR 0xE1, CHR 0x9A, CHR 0x80],
      [CHR 0xE2, CHR 0x80, CHR 0x80], [CHR 0xE2, CHR 0x80, CHR 0x81],
      [CHR 0xE2, CHR 0x80, CHR 0x82], [CHR 0xE2, CHR 0x80, CHR 0x83],
      [CHR 0xE2, CHR 0x80, CHR 0x84], [CHR 0xE2, CHR 0x80, CHR 0x85],
      [CHR 0xE2, CHR 0x80, CHR 0x86], [CHR 0xE2, CHR 0x80, CHR 0x87],
      [CHR 0xE2, CHR 0x80, CHR 0x88], [CHR 0xE2, CHR 0x80, CHR 0x89],
      [CHR 0xE2, CHR 0x80, CHR 0x8A], [CHR 0xE2, CHR 0x80, CHR 0xA8],
      [CHR 0xE2, CHR 0x80, CHR 0xA9], [CHR 0xE2, CHR 0x80, CHR 0xAF],
      [CHR 0xE2, CHR 0x81, CHR 0x9F], [CHR 0xE3, CHR 0x80, CHR 0x80],
      [CHR 0xEF, CHR 0xBB, CHR 0xBF]]"

text \<open>The string without the first of the given sequences that it begins with, if any.\<close>

fun strip_one :: "string list \<Rightarrow> string \<Rightarrow> string option" where
  "strip_one [] str = None"
| "strip_one (w # ws) str =
     (if w \<noteq> [] \<and> take (length w) str = w then Some (drop (length w) str)
      else strip_one ws str)"

text \<open>
  Removing white space at the start takes at most as many rounds as the string has bytes.
\<close>

fun strip_rounds :: "nat \<Rightarrow> string list \<Rightarrow> string \<Rightarrow> string" where
  "strip_rounds 0 ws str = str"
| "strip_rounds (Suc n) ws str =
     (case strip_one ws str of None \<Rightarrow> str | Some rest \<Rightarrow> strip_rounds n ws rest)"

definition trimStart :: "string \<Rightarrow> string" where
  "trimStart str = strip_rounds (length str) white_space str"

definition trimEnd :: "string \<Rightarrow> string" where
  "trimEnd str = rev (strip_rounds (length str) (map rev white_space) (rev str))"

definition trim :: "string \<Rightarrow> string" where
  "trim str = trimEnd (trimStart str)"

text \<open>\<open>v ?? ''\<close>.\<close>

definition or_empty :: "string option \<Rightarrow> string" where
  "or_empty v = (case v of None \<Rightarrow> [] | Some str \<Rightarrow> str)"

text \<open>String concatenation with a value that may be \<open>undefined\<close>.\<close>

definition to_string :: "string option \<Rightarrow> string" where
  "to_string v = (case v of None \<Rightarrow> ''undefined'' | Some str \<Rightarrow> str)"

definition bootstrapURI :: string where
  "bootstrapURI = ''/proxy/protect/api/bootstrap''"

definition urlBuilder :: "endpoints \<Rightarrow> AccessController \<Rightarrow> string option \<Rightarrow> string" where
  "urlBuilder E self endpoint =
     protocol_base E @ controllerIp (node_config self) @
     (case controllerPort (node_config self) of
        None \<Rightarrow> []
      | Some port \<Rightarrow> if length (trim port) \<noteq> 0 then '':'' @ port else []) @
     to_string endpoint"

text \<open>
  \<open>authenticateWithRetry\<close> of the promise \<open>p\<close>: the call of \<open>Axios.post\<close>. Its two
  handlers are \<open>login_then\<close> and \<open>login_catch\<close> below.
\<close>

definition authenticateWithRetry :: "endpoints \<Rightarrow> nat \<Rightarrow> AccessController \<Rightarrow> AccessController" where
  "authenticateWithRetry E p self =
     self\<lparr>loginsInFlight := loginsInFlight self @ [p],
          effects := effects self @
            [AxiosPostLogin p
               (urlBuilder E self (Some (login_url (controller E (controllerType self)))))
               (username self) (password self)]\<rparr>"

definition getAuthCookie ::
  "endpoints \<Rightarrow> bool option \<Rightarrow> AccessController \<Rightarrow> cookie_promise \<times> AccessController" where
  "getAuthCookie E regenerate self =
     (if truthy (authCookie self) \<and> regenerate \<noteq> Some True then
        (Settled (authCookie self), self)
      else
        (Created (length (cookiePromises self)),
         authenticateWithRetry E (length (cookiePromises self))
           (self\<lparr>cookiePromises := cookiePromises self @ [Pending]\<rparr>)))"

text \<open>
  The call \<open>Axios.request({url, method, data, headers: {cookie, ..., 'X-Request-ID': nodeId},
  ...})\<close> of the request \<open>r\<close>, made when the awaited cookie is there.
\<close>

definition issue :: "nat \<Rightarrow> string \<Rightarrow> AccessController \<Rightarrow> AccessController" where
  "issue r cookie self =
     (if r < length (requests self) then
        self\<lparr>requestsInFlight := requestsInFlight self @ [r],
             effects := effects self @
               [AxiosRequest r (req_url (requests self ! r)) (req_method (requests self ! r))
                  (req_data (requests self ! r)) cookie (req_nodeId (requests self ! r))]\<rparr>
      else self)"

text \<open>
  \<open>axiosRequest\<close> of the request \<open>r\<close>: it calls \<open>self.getAuthCookie()\<close> and awaits the
  result. A promise that is already fulfilled lets the rest run before any other event;
  on a new promise the rest waits.
\<close>

definition axiosRequest :: "endpoints \<Rightarrow> nat \<Rightarrow> AccessController \<Rightarrow> AccessController" where
  "axiosRequest E r self =
     (case getAuthCookie E None self of
        (Settled cookie, self') \<Rightarrow> issue r (or_empty cookie) self'
      | (Created p, self') \<Rightarrow> self'\<lparr>waiters := waiters self' @ [(p, AwaitInRequest r)]\<rparr>)"

text \<open>
  \<open>self.request\<close>. The two \<open>Promise.reject(...)\<close> are statements of their own: their
  promises are not returned and nothing is attached to them.
\<close>

definition request ::
  "endpoints \<Rightarrow> string \<Rightarrow> string option \<Rightarrow> string option \<Rightarrow> json option \<Rightarrow> string option \<Rightarrow>
     AccessController \<Rightarrow> nat \<times> AccessController" where
  "request E nodeId endpoint method data responseType self =
     (let self1 = (if \<not> truthy endpoint
                   then self\<lparr>effects := effects self @
                          [FloatingRejection (JsError ''endpoint cannot be empty!'')]\<rparr>
                   else self);
          self2 = (if \<not> truthy method
                   then self1\<lparr>effects := effects self1 @
                          [FloatingRejection (JsError ''method cannot be empty!'')]\<rparr>
                   else self1);
          url = urlBuilder E self2 endpoint;
          r = length (requests self2)
      in (r, axiosRequest E r
               (self2\<lparr>requests := requests self2 @
                  [\<lparr>req_nodeId = nodeId, req_url = url, req_method = method, req_data = data,
                    req_responseType = responseType, req_promise = Pending\<rparr>]\<rparr>)))"

definition getBootstrap :: "endpoints \<Rightarrow> AccessController \<Rightarrow> AccessController" where
  "getBootstrap E self =
     (case request E (node_id self) (Some bootstrapURI) (Some ''GET'') None (Some ''json'') self of
        (r, self') \<Rightarrow> self'\<lparr>thenBootstrap := thenBootstrap self' @ [r]\<rparr>)"

text \<open>
  \<open>resolve(response.data)\<close> and \<open>reject(error)\<close> of the promise of the request \<open>r\<close>.
  A promise that is settled stays as it is. A bootstrap request has the handlers of
  \<open>getBootstrap\<close> on its promise.
\<close>

definition resolve_request :: "nat \<Rightarrow> json \<Rightarrow> AccessController \<Rightarrow> AccessController" where
  "resolve_request r d self =
     (if r < length (requests self) \<and> req_promise (requests self ! r) = Pending then
        (let self' = self\<lparr>requests :=
                       (requests self)[r := (requests self ! r)\<lparr>req_promise := Fulfilled d\<rparr>]\<rparr>
         in if r \<in> set (thenBootstrap self')
            then self'\<lparr>bootstrapObject := Some d,
                       effects := effects self' @ [EventsEmit ''NRCHKB:UNIFIOS:BOOTSTRAP'']\<rparr>
            else self')
      else self)"

definition reject_request :: "nat \<Rightarrow> js_error \<Rightarrow> AccessController \<Rightarrow> AccessController" where
  "reject_request r e self =
     (if r < length (requests self) \<and> req_promise (requests self ! r) = Pending then
        self\<lparr>requests := (requests self)[r := (requests self ! r)\<lparr>req_promise := Rejected e\<rparr>]\<rparr>
      else self)"

text \<open>
  The \<open>catch\<close> handler of \<open>Axios.request\<close>: the two nested \<open>if\<close>, then
  \<open>reject(error)\<close>, which stands after them and runs for every error. The \<open>then\<close>
  handler after it calls \<open>resolve(response.data)\<close> when there is a response.
\<close>

definition request_catch ::
  "endpoints \<Rightarrow> nat \<Rightarrow> js_error \<Rightarrow> AccessController \<Rightarrow> AccessController" where
  "request_catch E r error self =
     reject_request r error
       (case error of
          HttpError status \<Rightarrow>
            if status = 401 then
              self\<lparr>authenticated := False, authCookie := None,
                   timers := timers self @ [Resend r],
                   effects := effects self @
                     [SetTimeout (Resend r) (login_retry (controller E (controllerType self)))]\<rparr>
            else self
        | _ \<Rightarrow> self)"

definition request_then :: "nat \<Rightarrow> json \<Rightarrow> AccessController \<Rightarrow> AccessController" where
  "request_then r d self = resolve_request r d self"

text \<open>\<open>response.headers['set-cookie']?.[0]\<close>.\<close>

definition first_set_cookie :: "string list option \<Rightarrow> string option" where
  "first_set_cookie h = (case h of None \<Rightarrow> None | Some [] \<Rightarrow> None | Some (c # _) \<Rightarrow> Some c)"

text \<open>What a waiter does with the value \<open>v\<close> of its promise.\<close>

definition run_waiter ::
  "endpoints \<Rightarrow> string option \<Rightarrow> waiter \<Rightarrow> AccessController \<Rightarrow> AccessController" where
  "run_waiter E v w self =
     (case w of
        AwaitInRequest r \<Rightarrow> issue r (or_empty v) self
      | RefreshThen init \<Rightarrow>
          getBootstrap E (if init = Some True then self\<lparr>initialized := True\<rparr> else self))"

text \<open>\<open>resolve(v)\<close> of the promise \<open>p\<close> of \<open>getAuthCookie\<close>: its waiters run in order.\<close>

definition resolve_cookie ::
  "endpoints \<Rightarrow> nat \<Rightarrow> string option \<Rightarrow> AccessController \<Rightarrow> AccessController" where
  "resolve_cookie E p v self =
     (if p < length (cookiePromises self) \<and> cookiePromises self ! p = Pending then
        fold (run_waiter E v) (map snd (filter (\<lambda>pw. fst pw = p) (waiters self)))
          (self\<lparr>cookiePromises := (cookiePromises self)[p := Fulfilled v],
                waiters := filter (\<lambda>pw. fst pw \<noteq> p) (waiters self)\<rparr>)
      else self)"

text \<open>
  The \<open>then\<close> and the \<open>catch\<close> handler of the login call of the promise \<open>p\<close>. The
  \<open>then\<close> handler has no \<open>else\<close> for a status other than 200.
\<close>

definition login_then ::
  "endpoints \<Rightarrow> nat \<Rightarrow> nat \<Rightarrow> string list option \<Rightarrow> AccessController \<Rightarrow> AccessController" where
  "login_then E p status set_cookie self =
     (if status = 200 then
        resolve_cookie E p (first_set_cookie set_cookie)
          (self\<lparr>authCookie := first_set_cookie set_cookie, authenticated := True\<rparr>)
      else self)"

definition login_catch ::
  "endpoints \<Rightarrow> nat \<Rightarrow> js_error \<Rightarrow> AccessController \<Rightarrow> AccessController" where
  "login_catch E p reason self =
     (let self' = self\<lparr>authenticated := False, authCookie := None\<rparr>
      in if \<not> stopped self' then
           self'\<lparr>timers := timers self' @ [LoginRetry p],
                 effects := effects self' @
                   [SetTimeout (LoginRetry p) (login_retry (controller E (controllerType self')))]\<rparr>
         else self')"

text \<open>
  \<open>refresh(init)\<close>: \<open>self.getAuthCookie(true)\<close>, then the handler that sets
  \<open>initialized\<close> and calls \<open>getBootstrap\<close>. (The promise of \<open>getAuthCookie\<close> is never
  rejected, so the \<open>catch\<close> in between never runs.)
\<close>

definition refresh :: "endpoints \<Rightarrow> bool option \<Rightarrow> AccessController \<Rightarrow> AccessController" where
  "refresh E init self =
     (case getAuthCookie E (Some True) self of
        (Settled cookie, self') \<Rightarrow> run_waiter E cookie (RefreshThen init) self'
      | (Created p, self') \<Rightarrow> self'\<lparr>waiters := waiters self' @ [(p, RefreshThen init)]\<rparr>)"

text \<open>The \<open>close\<close> handler.\<close>

definition close :: "endpoints \<Rightarrow> AccessController \<Rightarrow> AccessController" where
  "close E self =
     (let self' = self\<lparr>stopped := True, refreshTimeout := False, aborted := True\<rparr>
      in self'\<lparr>effects := effects self' @
           [AxiosPostLogout
              (urlBuilder E self' (Some (logout_url (controller E (controllerType self')))))]\<rparr>)"

text \<open>
  The body of the node function: the fields as they are set, the interval, and at the end
  \<open>refresh(true)\<close>. \<open>authCookie\<close> and \<open>bootstrapObject\<close> are not assigned and so
  \<open>undefined\<close>.
\<close>

definition body ::
  "endpoints \<Rightarrow> config \<Rightarrow> string \<Rightarrow> string \<Rightarrow> string \<Rightarrow> AccessController" where
  "body E cfg ident user pass =
     refresh E (Some True)
       \<lparr>node_config = cfg, node_id = ident, username = user, password = pass,
        initialized = False, authenticated = False, stopped = False,
        controllerType = (case controllerType_cfg cfg of None \<Rightarrow> UniFiOSConsole | Some t \<Rightarrow> t),
        aborted = False, authCookie = None, bootstrapObject = None, refreshTimeout = True,
        cookiePromises = [], waiters = [], loginsInFlight = [], requests = [],
        requestsInFlight = [], thenBootstrap = [], timers = [], effects = []\<rparr>"

subsection \<open>The event loop\<close>

text \<open>
  What can happen to a node after its construction: a call of one of its two methods, the
  settling of an HTTP call, a timer that fires, the interval, and \<open>close\<close>.
  The login call is made with \<open>signal: self.abortController.signal\<close>: once the signal is
  aborted its promise is rejected, whatever the server answered. \<open>Axios.request\<close> is made
  without a signal.
\<close>

datatype event =
    CallGetAuthCookie "bool option"
  | CallRequest string "string option" "string option" "json option" "string option"
  | LoginDone nat login_outcome
  | RequestDone nat request_outcome
  | TimerFires timer
  | IntervalFires
  | CloseNode

definition login_done ::
  "endpoints \<Rightarrow> nat \<Rightarrow> login_outcome \<Rightarrow> AccessController \<Rightarrow> AccessController" where
  "login_done E p outcome self =
     (if p \<in> set (loginsInFlight self) then
        (case (if aborted self then LoginRejected AbortError else outcome) of
           LoginResponse status set_cookie \<Rightarrow>
             login_then E p status set_cookie
               (self\<lparr>loginsInFlight := remove1 p (loginsInFlight self)\<rparr>)
         | LoginRejected reason \<Rightarrow>
             login_catch E p reason (self\<lparr>loginsInFlight := remove1 p (loginsInFlight self)\<rparr>))
      else self)"

definition request_done ::
  "endpoints \<Rightarrow> nat \<Rightarrow> request_outcome \<Rightarrow> AccessController \<Rightarrow> AccessController" where
  "request_done E r outcome self =
     (if r \<in> set (requestsInFlight self) then
        (case outcome of
           Response d \<Rightarrow>
             request_then r d (self\<lparr>requestsInFlight := remove1 r (requestsInFlight self)\<rparr>)
         | RequestRejected error \<Rightarrow>
             request_catch E r error
               (self\<lparr>requestsInFlight := remove1 r (requestsInFlight self)\<rparr>))
      else self)"

definition timer_fires :: "endpoints \<Rightarrow> timer \<Rightarrow> AccessController \<Rightarrow> AccessController" where
  "timer_fires E t self =
     (if t \<in> set (timers self) then
        (case t of
           LoginRetry p \<Rightarrow> authenticateWithRetry E p (self\<lparr>timers := remove1 t (timers self)\<rparr>)
         | Resend r \<Rightarrow> axiosRequest E r (self\<lparr>timers := remove1 t (timers self)\<rparr>))
      else self)"

definition step :: "endpoints \<Rightarrow> event \<Rightarrow> AccessController \<Rightarrow> AccessController" where
  "step E ev self =
     (case ev of
        CallGetAuthCookie regenerate \<Rightarrow> snd (getAuthCookie E regenerate self)
      | CallRequest nodeId endpoint method data responseType \<Rightarrow>
          snd (request E nodeId endpoint method data responseType self)
      | LoginDone p outcome \<Rightarrow> login_done E p outcome self
      | RequestDone r outcome \<Rightarrow> request_done E r outcome self
      | TimerFires t \<Rightarrow> timer_fires E t self
      | IntervalFires \<Rightarrow> if refreshTimeout self then refresh E None self else self
      | CloseNode \<Rightarrow> close E self)"

definition run :: "endpoints \<Rightarrow> event list \<Rightarrow> AccessController \<Rightarrow> AccessController" where
  "run E evs self = fold (step E) evs self"

section \<open>Notions used in the statements\<close>

subsection \<open>Reading the actions of the channel\<close>

text \<open>The calls of callbacks among a list of actions: all of them, and those of one node.\<close>

definition all_calls :: "'p action list \<Rightarrow> 'p action list" where
  "all_calls acts = filter (\<lambda>a. case a of Callback _ _ _ \<Rightarrow> True | _ \<Rightarrow> False) acts"

definition calls_to :: "string \<Rightarrow> 'p action list \<Rightarrow> 'p action list" where
  "calls_to k acts = filter (\<lambda>a. case a of Callback n _ _ \<Rightarrow> n = k | _ \<Rightarrow> False) acts"

text \<open>
  The calls that the loop makes when no callback interferes: one for every own key, of the
  callback stored under it.
\<close>

definition callback_calls :: "(string \<times> Interest) list \<Rightarrow> 'p \<Rightarrow> 'p action list" where
  "callback_calls cbs objectToSend =
     List.map_filter
       (\<lambda>Node. map_option (\<lambda>i. Callback Node (callback i) objectToSend) (lookup cbs Node))
       (Object_keys cbs)"

subsection \<open>Well-behaved callbacks\<close>

text \<open>Callbacks that make no call into the channel and never throw.\<close>

definition silent :: "'p handlers \<Rightarrow> bool" where
  "silent H = (\<forall>h v. H h v = ([], False))"

text \<open>
  The callbacks of the given registrations, called with the payload, return normally and
  neither register nor deregister anything.
\<close>

definition touches_registry :: "handler_call \<Rightarrow> bool" where
  "touches_registry c =
     (case c of CallUpdateLastUpdateId _ \<Rightarrow> False | _ \<Rightarrow> True)"

definition quiet_for :: "'p handlers \<Rightarrow> 'p \<Rightarrow> (string \<times> Interest) list \<Rightarrow> bool" where
  "quiet_for H v cbs =
     list_all (\<lambda>p. \<not> snd (H (callback (snd p)) v) \<and>
                     list_all (\<lambda>c. \<not> touches_registry c) (fst (H (callback (snd p)) v))) cbs"

subsection \<open>Reading the state of the node\<close>


text \<open>What the node did after its logout call, that is after \<open>close\<close>.\<close>

definition after_logout :: "effect list \<Rightarrow> effect list" where
  "after_logout es =
     tl (dropWhile (\<lambda>e. case e of AxiosPostLogout _ \<Rightarrow> False | _ \<Rightarrow> True) es)"

text \<open>
  An event other than a login response with status 200 that lacks a first
  \<open>set-cookie\<close> value.
\<close>

definition session_header_present :: "event \<Rightarrow> bool" where
  "session_header_present ev =
     (case ev of
        LoginDone p (LoginResponse status set_cookie) \<Rightarrow>
          status \<noteq> 200 \<or> first_set_cookie set_cookie \<noteq> None
      | _ \<Rightarrow> True)"

text \<open>Two states with the same credential and the same \<open>authenticated\<close> flag.\<close>

definition same_cred :: "AccessController \<Rightarrow> AccessController \<Rightarrow> bool" where
  "same_cred s t = (authCookie t = authCookie s \<and> authenticated t = authenticated s)"

definition cookie_implies_auth :: "AccessController \<Rightarrow> bool" where
  "cookie_implies_auth s = (authCookie s = None \<or> authenticated s)"

definition two_valued :: "AccessController \<Rightarrow> bool" where
  "two_valued s = (authenticated s = (authCookie s \<noteq> None))"

text \<open>
  The requests of \<open>t\<close> are those of \<open>s\<close>, unchanged, followed by new ones, and
  likewise the effects.
\<close>

definition req_ext :: "AccessController \<Rightarrow> AccessController \<Rightarrow> bool" where
  "req_ext s t = ((\<exists>new. requests t = requests s @ new) \<and>
                  (\<exists>new. effects t = effects s @ new))"

text \<open>The state of a request's promise once its HTTP call has settled with the outcome.\<close>

definition settles :: "request_outcome \<Rightarrow> json promise" where
  "settles oc = (case oc of Response d \<Rightarrow> Fulfilled d | RequestRejected e \<Rightarrow> Rejected e)"

text \<open>
  The promise \<open>p\<close> of \<open>getAuthCookie\<close> is pending, and neither a login call nor a retry
  timer exists for it.
\<close>

definition stuck :: "nat \<Rightarrow> AccessController \<Rightarrow> bool" where
  "stuck p s = (p < length (cookiePromises s) \<and> cookiePromises s ! p = Pending \<and>
                p \<notin> set (loginsInFlight s) \<and> LoginRetry p \<notin> set (timers s))"

subsection \<open>A concrete controller, channel and node\<close>

definition E0 :: endpoints where
  "E0 = \<lparr>protocol_base = ''https://'', protocol_webSocket = ''wss://'',
         controller = (\<lambda>t. case t of
            UniFiOSConsole \<Rightarrow>
              \<lparr>login_url = ''/api/auth/login'', login_retry = 5000,
               logout_url = ''/api/auth/logout''\<rparr>
          | UniFiController \<Rightarrow>
              \<lparr>login_url = ''/api/login'', login_retry = 3000, logout_url = ''/api/logout''\<rparr>)\<rparr>"

definition cfg0 :: config where
  "cfg0 = \<lparr>controllerIp = ''10.0.0.1'', controllerPort = None, controllerType_cfg = None\<rparr>"

text \<open>A parser that accepts one text and a decoder that accepts one packet.\<close>

definition JSON0 :: "frame \<Rightarrow> string js_result" where
  "JSON0 data = (if data = ''{}'' then Returns ''obj'' else Throws)"

definition decode0 :: "frame \<Rightarrow> string js_result" where
  "decode0 data = (if data = ''bin'' then Returns ''pkt'' else Throws)"

text \<open>A decoder that never throws and reports what it cannot decode by the value it returns.\<close>

definition decode1 :: "frame \<Rightarrow> string js_result" where
  "decode1 data = (if data = ''bin'' then Returns ''pkt'' else Returns ''null'')"

text \<open>
  Three behaviours of callbacks: all return at once; callback 7 throws; callback 7
  deregisters the node \<open>n2\<close>.
\<close>

definition H0 :: "string handlers" where
  "H0 h v = ([], False)"

definition H_throw :: "string handlers" where
  "H_throw h v = (if h = 7 then ([], True) else ([], False))"

definition H_dereg :: "string handlers" where
  "H_dereg h v = (if h = 7 then ([CallDegisterInterest ''n2''], False) else ([], False))"

text \<open>A connected channel on which two nodes have registered.\<close>

definition inputs0 :: "channel_input list" where
  "inputs0 =
     [RegisterInterest ''n1'' \<lparr>deviceId = ''cam1'', callback = 7\<rparr>,
      RegisterInterest ''n2'' \<lparr>deviceId = ''cam2'', callback = 8\<rparr>]"

definition ch0 :: channel where
  "ch0 = snd (channel_run E0 H0 JSON0 decode0 inputs0
                (snd (new_channel E0 (Some ''TOKEN123; Path=/'') cfg0 ''u1''
                        :: string action list \<times> channel)))"

text \<open>A node after its construction, and after its first login has succeeded.\<close>

definition node0 :: AccessController where
  "node0 = body E0 cfg0 ''ac1'' ''admin'' ''secret''"

definition node1 :: AccessController where
  "node1 = run E0 [LoginDone 0 (LoginResponse 200 (Some [''TOKEN123; Path=/'']))] node0"

text \<open>
  A request of a consumer is answered with 401; later its timer fires, a new login succeeds
  and the request, sent again, is answered.
\<close>

definition trace_401 :: "event list" where
  "trace_401 =
     [LoginDone 0 (LoginResponse 200 (Some [''TOKEN123; Path=/''])),
      RequestDone 0 (Response ''{bootstrap}''),
      CallRequest ''n1'' (Some ''/proxy/protect/api/cameras'') (Some ''GET'') None (Some ''json''),
      RequestDone 1 (RequestRejected (HttpError 401))]"

definition trace_401_resent :: "event list" where
  "trace_401_resent = trace_401 @
     [TimerFires (Resend 1),
      LoginDone 1 (LoginResponse 200 (Some [''TOKEN456; Path=/''])),
      RequestDone 1 (Response ''{cameras}'')]"

text \<open>
  Three runs with \<open>close\<close>. In the first a request is in flight when the node is closed
  and is answered with 401 afterwards. In the second the 401 comes while a refresh is under
  way, the refresh succeeds, the node is closed, and then the timer of the request fires. In
  the third a failed login has set its retry timer, the node is closed, and the timer fires.
\<close>

definition trace_close_then_401 :: "event list" where
  "trace_close_then_401 =
     [LoginDone 0 (LoginResponse 200 (Some [''TOKEN123; Path=/''])),
      RequestDone 0 (Response ''{bootstrap}''),
      CallRequest ''n1'' (Some ''/proxy/protect/api/cameras'') (Some ''GET'') None (Some ''json''),
      CloseNode,
      RequestDone 1 (RequestRejected (HttpError 401))]"

definition trace_resend_pending_at_close :: "event list" where
  "trace_resend_pending_at_close =
     [LoginDone 0 (LoginResponse 200 (Some [''TOKEN123; Path=/''])),
      RequestDone 0 (Response ''{bootstrap}''),
      CallRequest ''n1'' (Some ''/proxy/protect/api/cameras'') (Some ''GET'') None (Some ''json''),
      IntervalFires,
      RequestDone 1 (RequestRejected (HttpError 401)),
      LoginDone 1 (LoginResponse 200 (Some [''TOKEN456; Path=/''])),
      CloseNode,
      TimerFires (Resend 1)]"

definition trace_login_retry_at_close :: "event list" where
  "trace_login_retry_at_close =
     [LoginDone 0 (LoginRejected OtherError), CloseNode, TimerFires (LoginRetry 0)]"

section \<open>Properties of the shared realtime channel\<close>

subsection \<open>The registry\<close>

lemma assign_assign: "assign k v (assign k w ps) = assign k v ps"
  by (induction ps) auto

lemma map_of_assign: "map_of (assign k v ps) = (map_of ps)(k \<mapsto> v)"
  by (induction ps) (auto simp: fun_eq_iff)

lemma keys_assign:
  "map fst (assign k v ps) = (if k \<in> fst ` set ps then map fst ps else map fst ps @ [k])"
  by (induction ps) force+

lemma distinct_assign: "distinct (map fst ps) \<Longrightarrow> distinct (map fst (assign k v ps))"
  by (simp add: keys_assign)

lemma distinct_delete_key: "distinct (map fst ps) \<Longrightarrow> distinct (map fst (delete_key k ps))"
  by (simp add: delete_key_def distinct_map_filter)

text \<open>
  Claim C9, as the code has it. For every key \<open>k\<close>, registering \<open>i1\<close> and then \<open>i2\<close>
  under \<open>k\<close> gives the very channel that registering \<open>i2\<close> alone gives, registering the
  same pair twice is registering it once, and every other key is bound as before. For
  every \<open>k\<close> other than \<open>__proto__\<close> the call is an upsert: afterwards \<open>k\<close> is bound to
  the Interest registered last, and no other field of the channel changes. For
  \<open>__proto__\<close> the call replaces the prototype of the registry object and leaves its own
  properties, that is the registrations, as they are.
\<close>

theorem registerInterest_upsert:
  "registerInterest k i2 (registerInterest k i1 ch) = registerInterest k i2 ch \<and>
   registerInterest k i (registerInterest k i ch) = registerInterest k i ch \<and>
   (\<forall>k'. k' \<noteq> k \<longrightarrow>
      lookup (callbacks (registerInterest k i ch)) k' = lookup (callbacks ch) k') \<and>
   (k \<noteq> ''__proto__'' \<longrightarrow>
      lookup (callbacks (registerInterest k i ch)) = (lookup (callbacks ch))(k \<mapsto> i) \<and>
      registerInterest k i ch = ch\<lparr>callbacks := callbacks (registerInterest k i ch)\<rparr>) \<and>
   (k = ''__proto__'' \<longrightarrow>
      registerInterest k i ch = ch\<lparr>callbacks_proto := Some i\<rparr> \<and>
      callbacks (registerInterest k i ch) = callbacks ch)"
  by (simp add: registerInterest_def assign_assign lookup_def map_of_assign fun_eq_iff)

lemma callbacks_ch0:
  "callbacks ch0 =
     [(''n1'', \<lparr>deviceId = ''cam1'', callback = 7\<rparr>), (''n2'', \<lparr>deviceId = ''cam2'', callback = 8\<rparr>)]"
  by (simp add: ch0_def inputs0_def channel_step_def registerInterest_def new_channel_def
      Connect_def)

theorem registerInterest_upsert_witness:
  "''n1'' \<noteq> ''__proto__'' \<and> ''n2'' \<noteq> ''n1'' \<and>
   lookup (callbacks (registerInterest ''n1'' \<lparr>deviceId = ''cam3'', callback = 9\<rparr> ch0)) ''n1'' =
     Some \<lparr>deviceId = ''cam3'', callback = 9\<rparr> \<and>
   lookup (callbacks (registerInterest ''n1'' \<lparr>deviceId = ''cam3'', callback = 9\<rparr> ch0)) ''n2'' =
     Some \<lparr>deviceId = ''cam2'', callback = 8\<rparr> \<and>
   Object_keys (callbacks (registerInterest ''n1'' \<lparr>deviceId = ''cam3'', callback = 9\<rparr> ch0)) =
     [''n1'', ''n2''] \<and>
   callbacks (registerInterest ''__proto__'' \<lparr>deviceId = ''cam3'', callback = 9\<rparr> ch0) =
     [(''n1'', \<lparr>deviceId = ''cam1'', callback = 7\<rparr>), (''n2'', \<lparr>deviceId = ''cam2'', callback = 8\<rparr>)]"
proof -
  note t = registerInterest_upsert[of "''n1''" "\<lparr>deviceId = ''cam3'', callback = 9\<rparr>"
      "\<lparr>deviceId = ''cam3'', callback = 9\<rparr>" ch0 "\<lparr>deviceId = ''cam3'', callback = 9\<rparr>"]
  have n: "''n1'' \<noteq> ''__proto__''" by simp
  from t n have a: "lookup (callbacks (registerInterest ''n1'' \<lparr>deviceId = ''cam3'', callback = 9\<rparr> ch0)) =
      (lookup (callbacks ch0))(''n1'' \<mapsto> \<lparr>deviceId = ''cam3'', callback = 9\<rparr>)"
    by blast
  have k: "Object_keys (callbacks (registerInterest ''n1'' \<lparr>deviceId = ''cam3'', callback = 9\<rparr> ch0)) =
     [''n1'', ''n2'']"
    by (simp add: registerInterest_def callbacks_ch0 Object_keys_def)
  from registerInterest_upsert[of "''__proto__''" "\<lparr>deviceId = ''cam3'', callback = 9\<rparr>"
      "\<lparr>deviceId = ''cam3'', callback = 9\<rparr>" ch0 "\<lparr>deviceId = ''cam3'', callback = 9\<rparr>"]
  have p: "callbacks (registerInterest ''__proto__'' \<lparr>deviceId = ''cam3'', callback = 9\<rparr> ch0) =
      callbacks ch0"
    by blast
  from a k p show ?thesis
    by (simp add: callbacks_ch0 lookup_def)
qed

text \<open>
  The claim as stated fails for the key \<open>__proto__\<close>: the call creates no registration
  under it. The registry has the keys it had, the key is not bound, and a frame is
  dispatched to the two callbacks registered before and not to callback 9.
\<close>

theorem proto_key_registers_nothing:
  "Object_keys (callbacks (registerInterest ''__proto__'' \<lparr>deviceId = ''cam3'', callback = 9\<rparr> ch0)) =
     [''n1'', ''n2''] \<and>
   lookup (callbacks (registerInterest ''__proto__'' \<lparr>deviceId = ''cam3'', callback = 9\<rparr> ch0))
     ''__proto__'' = None \<and>
   fst (on_message H0 JSON0 decode0 ''{}''
          (registerInterest ''__proto__'' \<lparr>deviceId = ''cam3'', callback = 9\<rparr> ch0)) =
     [JSONParse ''{}'', Callback ''n1'' 7 ''obj'', Callback ''n2'' 8 ''obj'']"
  by (simp add: registerInterest_def callbacks_ch0 Object_keys_def lookup_def on_message_def
      dispatch_def JSON0_def H0_def apply_calls_def)

subsection \<open>Dispatch\<close>

text \<open>No operation of the channel, and no call of a callback, creates a second entry for a key.\<close>

lemma apply_call_distinct:
  "distinct (map fst (callbacks ch)) \<Longrightarrow> distinct (map fst (callbacks (apply_call c ch)))"
  by (cases c)
     (simp_all add: apply_call_def registerInterest_def degisterInterest_def
        updateLastUpdateId_def distinct_assign distinct_delete_key)

lemma apply_calls_distinct:
  "distinct (map fst (callbacks ch)) \<Longrightarrow> distinct (map fst (callbacks (apply_calls cs ch)))"
  unfolding apply_calls_def
  by (induction cs arbitrary: ch) (simp_all add: apply_call_distinct)

text \<open>The loop and the listener, by cases.\<close>

lemma forEach_Cons_throws:
  "lookup (callbacks ch) Node = Some i \<Longrightarrow> H (callback i) v = (calls, True) \<Longrightarrow>
   forEach_callback H v (Node # Nodes) ch =
     ([Callback Node (callback i) v], True, apply_calls calls ch)"
  by simp

lemma forEach_Cons_returns:
  "lookup (callbacks ch) Node = Some i \<Longrightarrow> H (callback i) v = (calls, False) \<Longrightarrow>
   forEach_callback H v (Node # Nodes) ch =
     (Callback Node (callback i) v # fst (forEach_callback H v Nodes (apply_calls calls ch)),
      snd (forEach_callback H v Nodes (apply_calls calls ch)))"
  by (simp split: prod.splits)

lemma on_message_cases:
  "on_message H J D data ch =
     (case J data of
        Returns v \<Rightarrow> (JSONParse data # fst (dispatch H v ch), snd (dispatch H v ch))
      | Throws \<Rightarrow>
          (case D data of
             Returns v \<Rightarrow>
               (JSONParse data # DecodeUpdatePacket data # fst (dispatch H v ch),
                snd (dispatch H v ch))
           | Throws \<Rightarrow> ([JSONParse data, DecodeUpdatePacket data], True, ch)))"
  by (simp add: on_message_def split: js_result.splits prod.splits)

lemma ws_emit_cases:
  "ws_emit H J D ev ch =
     (case WS ch of
        None \<Rightarrow> ([], ch)
      | Some sock \<Rightarrow>
          (case ev of
             Message data \<Rightarrow>
               (if fst (snd (on_message H J D data ch))
                then fst (on_message H J D data ch) @ [Uncaught]
                else fst (on_message H J D data ch),
                snd (snd (on_message H J D data ch)))
           | Close \<Rightarrow> ([], ch)
           | Error \<Rightarrow> ([Uncaught], ch)))"
  by (simp add: ws_emit_def split: option.splits ws_event.splits prod.splits)

lemma forEach_distinct:
  "distinct (map fst (callbacks ch)) \<Longrightarrow>
   distinct (map fst (callbacks (snd (snd (forEach_callback H v Nodes ch)))))"
proof (induction Nodes arbitrary: ch)
  case Nil
  then show ?case by simp
next
  case (Cons Node Nodes)
  show ?case
  proof (cases "lookup (callbacks ch) Node")
    case None
    with Cons.prems show ?thesis by simp
  next
    case (Some i)
    obtain calls throws where h: "H (callback i) v = (calls, throws)"
      by (cases "H (callback i) v")
    have d: "distinct (map fst (callbacks (apply_calls calls ch)))"
      by (rule apply_calls_distinct[OF Cons.prems])
    show ?thesis
    proof (cases throws)
      case True
      with d Some h show ?thesis by simp
    next
      case False
      with h have "H (callback i) v = (calls, False)" by simp
      from forEach_Cons_returns[where H=H and v=v, OF Some this] Cons.IH[OF d] show ?thesis
        by (simp del: forEach_callback.simps)
    qed
  qed
qed

lemma on_message_distinct:
  "distinct (map fst (callbacks ch)) \<Longrightarrow>
   distinct (map fst (callbacks (snd (snd (on_message H J D data ch)))))"
proof -
  assume d: "distinct (map fst (callbacks ch))"
  have "distinct (map fst (callbacks (snd (snd (dispatch H v ch)))))" for v
    unfolding dispatch_def by (rule forEach_distinct[OF d])
  with d show ?thesis
    by (simp add: on_message_cases split: js_result.splits)
qed

lemma step_distinct:
  "distinct (map fst (callbacks ch)) \<Longrightarrow>
   distinct (map fst (callbacks (snd (channel_step E H J D inp ch))))"
proof (cases inp)
  case (Emit ev)
  assume d: "distinct (map fst (callbacks ch))"
  from on_message_distinct[OF d, of H J D] d Emit show ?thesis
    by (simp add: channel_step_def ws_emit_cases split: option.splits ws_event.splits)
qed (simp_all add: channel_step_def registerInterest_def degisterInterest_def
       updateLastUpdateId_def Connect_def distinct_assign distinct_delete_key)

lemma run_distinct:
  "distinct (map fst (callbacks ch)) \<Longrightarrow>
   distinct (map fst (callbacks (snd (channel_run E H J D inps ch))))"
proof (induction inps arbitrary: ch)
  case Nil
  then show ?case by simp
next
  case (Cons inp inps)
  from Cons.IH[OF step_distinct[OF Cons.prems, of E H J D inp]]
  show ?case by (simp split: prod.splits) (metis snd_conv)
qed

lemma reachable_distinct:
  "distinct (map fst (callbacks (snd (channel_run E H J D inps (snd (new_channel E c cfg b))))))"
  by (rule run_distinct) (simp add: new_channel_def Connect_def)

text \<open>Callbacks that call nothing and do not throw: the loop makes its calls and changes nothing.\<close>

lemma forEach_silent:
  "silent H \<Longrightarrow> set Nodes \<subseteq> fst ` set (callbacks ch) \<Longrightarrow>
   forEach_callback H v Nodes ch =
     (List.map_filter
        (\<lambda>Node. map_option (\<lambda>i. Callback Node (callback i) v) (lookup (callbacks ch) Node)) Nodes,
      False, ch)"
proof (induction Nodes)
  case Nil
  then show ?case by (simp add: List.map_filter_def)
next
  case (Cons Node Nodes)
  from Cons.prems(2) have "Node \<in> fst ` set (callbacks ch)" by simp
  then have "map_of (callbacks ch) Node \<noteq> None" by (simp add: map_of_eq_None_iff)
  then obtain i where i: "lookup (callbacks ch) Node = Some i"
    by (auto simp: lookup_def)
  from Cons.prems(1) have h: "H (callback i) v = ([], False)" by (simp add: silent_def)
  from Cons i h show ?case
    by (simp add: apply_calls_def List.map_filter_def)
qed

lemma dispatch_silent:
  "silent H \<Longrightarrow> dispatch H v ch = (callback_calls (callbacks ch) v, False, ch)"
  by (simp add: dispatch_def callback_calls_def Object_keys_def forEach_silent)

text \<open>
  Callbacks that return normally and leave the registry alone: with distinct keys the loop
  calls the callback of each entry, in the order of the entries, and the registry is as
  before.
\<close>

lemma apply_calls_keeps_registry:
  "list_all (\<lambda>c. \<not> touches_registry c) cs \<Longrightarrow> callbacks (apply_calls cs ch) = callbacks ch"
  unfolding apply_calls_def
proof (induction cs arbitrary: ch)
  case Nil
  then show ?case by simp
next
  case (Cons c cs)
  then have "callbacks (apply_call c ch) = callbacks ch"
    by (cases c) (simp_all add: touches_registry_def apply_call_def updateLastUpdateId_def)
  with Cons show ?case by simp
qed

lemma forEach_quiet:
  "distinct (map fst (callbacks ch)) \<Longrightarrow> set xs \<subseteq> set (callbacks ch) \<Longrightarrow> quiet_for H v xs \<Longrightarrow>
   fst (forEach_callback H v (map fst xs) ch) = map (\<lambda>p. Callback (fst p) (callback (snd p)) v) xs \<and>
   \<not> fst (snd (forEach_callback H v (map fst xs) ch)) \<and>
   callbacks (snd (snd (forEach_callback H v (map fst xs) ch))) = callbacks ch"
proof (induction xs arbitrary: ch)
  case Nil
  then show ?case by simp
next
  case (Cons x xs)
  from Cons.prems(1,2) have l: "lookup (callbacks ch) (fst x) = Some (snd x)"
    by (cases x) (simp add: lookup_def)
  obtain calls throws where h: "H (callback (snd x)) v = (calls, throws)"
    by (cases "H (callback (snd x)) v")
  from Cons.prems(3) h have q: "\<not> throws" "list_all (\<lambda>c. \<not> touches_registry c) calls"
    "quiet_for H v xs"
    by (simp_all add: quiet_for_def)
  have k: "callbacks (apply_calls calls ch) = callbacks ch"
    by (rule apply_calls_keeps_registry[OF q(2)])
  have "distinct (map fst (callbacks (apply_calls calls ch)))"
    "set xs \<subseteq> set (callbacks (apply_calls calls ch))"
    using Cons.prems(1,2) by (simp_all add: k)
  from Cons.IH[OF this q(3)] k
  have r: "fst (forEach_callback H v (map fst xs) (apply_calls calls ch)) =
             map (\<lambda>p. Callback (fst p) (callback (snd p)) v) xs"
    "\<not> fst (snd (forEach_callback H v (map fst xs) (apply_calls calls ch)))"
    "callbacks (snd (snd (forEach_callback H v (map fst xs) (apply_calls calls ch)))) = callbacks ch"
    by simp_all
  from h q(1) have "H (callback (snd x)) v = (calls, False)" by simp
  from forEach_Cons_returns[where H=H and v=v and Nodes="map fst xs", OF l this] r show ?case
    by (simp del: forEach_callback.simps)
qed

lemma all_calls_map: "all_calls (map (\<lambda>p. Callback (fst p) (callback (snd p)) v) cbs)
    = map (\<lambda>p. Callback (fst p) (callback (snd p)) v) cbs"
  by (induction cbs) (auto simp: all_calls_def)

lemma calls_to_map_absent:
  "k \<notin> fst ` set cbs \<Longrightarrow> calls_to k (map (\<lambda>p. Callback (fst p) (callback (snd p)) v) cbs) = []"
  by (induction cbs) (auto simp: calls_to_def)

lemma calls_to_map:
  "distinct (map fst cbs) \<Longrightarrow> map_of cbs k = Some i \<Longrightarrow>
     calls_to k (map (\<lambda>p. Callback (fst p) (callback (snd p)) v) cbs) = [Callback k (callback i) v]"
proof (induction cbs)
  case Nil
  then show ?case by simp
next
  case (Cons p ps)
  show ?case
  proof (cases "fst p = k")
    case True
    with Cons.prems have "k \<notin> fst ` set ps" "snd p = i" by auto
    then show ?thesis using True calls_to_map_absent[of k ps v]
      by (cases p) (simp add: calls_to_def)
  next
    case False
    with Cons show ?thesis by (cases p) (simp add: calls_to_def)
  qed
qed

lemma on_message_quiet:
  assumes "distinct (map fst (callbacks ch))"
    and "J data = Returns v \<or> (J data = Throws \<and> D data = Returns v)"
    and "quiet_for H v (callbacks ch)"
  shows "all_calls (fst (on_message H J D data ch)) =
           map (\<lambda>p. Callback (fst p) (callback (snd p)) v) (callbacks ch)"
    and "calls_to k (fst (on_message H J D data ch)) =
           calls_to k (map (\<lambda>p. Callback (fst p) (callback (snd p)) v) (callbacks ch))"
    and "\<not> fst (snd (on_message H J D data ch))"
    and "callbacks (snd (snd (on_message H J D data ch))) = callbacks ch"
proof -
  note q = forEach_quiet[OF assms(1) subset_refl assms(3)]
  obtain acts esc ch' where f: "forEach_callback H v (map fst (callbacks ch)) ch = (acts, esc, ch')"
    by (cases "forEach_callback H v (map fst (callbacks ch)) ch")
  with q have r: "acts = map (\<lambda>p. Callback (fst p) (callback (snd p)) v) (callbacks ch)"
    "\<not> esc" "callbacks ch' = callbacks ch"
    by simp_all
  from assms(2) f r
  show "all_calls (fst (on_message H J D data ch)) =
           map (\<lambda>p. Callback (fst p) (callback (snd p)) v) (callbacks ch)"
    using all_calls_map[of v "callbacks ch"]
    by (auto simp: on_message_def dispatch_def Object_keys_def all_calls_def)
  from assms(2) f r
  show "calls_to k (fst (on_message H J D data ch)) =
           calls_to k (map (\<lambda>p. Callback (fst p) (callback (snd p)) v) (callbacks ch))"
    by (auto simp: on_message_def dispatch_def Object_keys_def calls_to_def)
  from assms(2) f r show "\<not> fst (snd (on_message H J D data ch))"
    by (auto simp: on_message_def dispatch_def Object_keys_def)
  from assms(2) f r show "callbacks (snd (snd (on_message H J D data ch))) = callbacks ch"
    by (auto simp: on_message_def dispatch_def Object_keys_def)
qed

text \<open>
  Claim C6, as the code has it. Take any channel that the constructor and any sequence of
  calls and socket events produce, a frame that decodes to \<open>v\<close> (as JSON, or as an update
  packet when it is not JSON), and let the callbacks of the registered interests, called
  with \<open>v\<close>, return normally and neither register nor deregister anything. Then the
  listener makes as many calls of callbacks as there are registered interests; for every
  registered node it makes exactly one call, of that node's callback with \<open>v\<close>; it calls
  nothing for a node that is not registered; no exception leaves it and the registry is as
  before; and the calls do not depend on the \<open>deviceId\<close> stored in the interests.
\<close>

theorem fan_out:
  assumes "ch = snd (channel_run E H J D inps (snd (new_channel E c cfg b)))"
    and "J data = Returns v \<or> (J data = Throws \<and> D data = Returns v)"
    and "quiet_for H v (callbacks ch)"
  shows "length (all_calls (fst (on_message H J D data ch))) = length (callbacks ch) \<and>
         (\<forall>k i. lookup (callbacks ch) k = Some i \<longrightarrow>
                calls_to k (fst (on_message H J D data ch)) = [Callback k (callback i) v]) \<and>
         (\<forall>k. lookup (callbacks ch) k = None \<longrightarrow>
                calls_to k (fst (on_message H J D data ch)) = []) \<and>
         \<not> fst (snd (on_message H J D data ch)) \<and>
         callbacks (snd (snd (on_message H J D data ch))) = callbacks ch \<and>
         (\<forall>f. fst (on_message H J D data
                 (ch\<lparr>callbacks := map (\<lambda>p. (fst p, (snd p)\<lparr>deviceId := f p\<rparr>)) (callbacks ch)\<rparr>))
               = fst (on_message H J D data ch))"
proof -
  have d: "distinct (map fst (callbacks ch))"
    unfolding assms(1) by (rule reachable_distinct)
  note m = on_message_quiet[of ch J data v D H, OF d assms(2) assms(3)]
  have 1: "length (all_calls (fst (on_message H J D data ch))) = length (callbacks ch)"
    by (simp add: m(1))
  have 2: "calls_to k (fst (on_message H J D data ch)) = [Callback k (callback i) v]"
    if "lookup (callbacks ch) k = Some i" for k i
    using that by (simp add: m(2) calls_to_map[OF d] lookup_def)
  have 3: "calls_to k (fst (on_message H J D data ch)) = []"
    if "lookup (callbacks ch) k = None" for k
    using that by (simp add: m(2) calls_to_map_absent lookup_def map_of_eq_None_iff)
  have 4: "fst (on_message H J D data
                 (ch\<lparr>callbacks := map (\<lambda>p. (fst p, (snd p)\<lparr>deviceId := f p\<rparr>)) (callbacks ch)\<rparr>))
               = fst (on_message H J D data ch)" for f
  proof -
    let ?ch = "ch\<lparr>callbacks := map (\<lambda>p. (fst p, (snd p)\<lparr>deviceId := f p\<rparr>)) (callbacks ch)\<rparr>"
    have d': "distinct (map fst (callbacks ?ch))" using d by (simp add: comp_def)
    have q': "quiet_for H v (callbacks ?ch)"
      using assms(3) by (simp add: quiet_for_def list_all_iff)
    obtain acts esc ch' where
      f: "forEach_callback H v (map fst (callbacks ch)) ch = (acts, esc, ch')"
      by (cases "forEach_callback H v (map fst (callbacks ch)) ch")
    obtain acts2 esc2 ch2 where
      g: "forEach_callback H v (map fst (callbacks ?ch)) ?ch = (acts2, esc2, ch2)"
      by (cases "forEach_callback H v (map fst (callbacks ?ch)) ?ch")
    from forEach_quiet[OF d subset_refl assms(3)] f
    have a: "acts = map (\<lambda>p. Callback (fst p) (callback (snd p)) v) (callbacks ch)" by simp
    from forEach_quiet[OF d' subset_refl q'] g
    have b: "acts2 = map (\<lambda>p. Callback (fst p) (callback (snd p)) v) (callbacks ?ch)" by simp
    have "acts2 = acts" by (simp add: a b comp_def)
    with assms(2) f g show ?thesis
      by (auto simp: on_message_def dispatch_def Object_keys_def)
  qed
  from 1 2 3 4 m(3) m(4) show ?thesis by blast
qed

theorem fan_out_witness:
  "JSON0 ''{}'' = Returns ''obj'' \<and> quiet_for H0 ''obj'' (callbacks ch0) \<and>
   length (all_calls (fst (on_message H0 JSON0 decode0 ''{}'' ch0))) = 2 \<and>
   calls_to ''n1'' (fst (on_message H0 JSON0 decode0 ''{}'' ch0)) = [Callback ''n1'' 7 ''obj''] \<and>
   calls_to ''n2'' (fst (on_message H0 JSON0 decode0 ''{}'' ch0)) = [Callback ''n2'' 8 ''obj''] \<and>
   calls_to ''n3'' (fst (on_message H0 JSON0 decode0 ''{}'' ch0)) = []"
proof -
  have j: "JSON0 ''{}'' = Returns ''obj'' \<or> (JSON0 ''{}'' = Throws \<and> decode0 ''{}'' = Returns ''obj'')"
    by (simp add: JSON0_def)
  have q: "quiet_for H0 ''obj'' (callbacks ch0)"
    by (simp add: quiet_for_def callbacks_ch0 H0_def)
  have l: "lookup (callbacks ch0) ''n1'' = Some \<lparr>deviceId = ''cam1'', callback = 7\<rparr>"
    "lookup (callbacks ch0) ''n2'' = Some \<lparr>deviceId = ''cam2'', callback = 8\<rparr>"
    "lookup (callbacks ch0) ''n3'' = None"
    by (simp_all add: callbacks_ch0 lookup_def)
  note f = fan_out[OF ch0_def j q]
  from f have 1: "length (all_calls (fst (on_message H0 JSON0 decode0 ''{}'' ch0))) = 2"
    by (simp add: callbacks_ch0)
  from f l(1) have 2: "calls_to ''n1'' (fst (on_message H0 JSON0 decode0 ''{}'' ch0)) =
      [Callback ''n1'' (callback \<lparr>deviceId = ''cam1'', callback = 7\<rparr>) ''obj'']"
    by blast
  from f l(2) have 3: "calls_to ''n2'' (fst (on_message H0 JSON0 decode0 ''{}'' ch0)) =
      [Callback ''n2'' (callback \<lparr>deviceId = ''cam2'', callback = 8\<rparr>) ''obj'']"
    by blast
  from f l(3) have 4: "calls_to ''n3'' (fst (on_message H0 JSON0 decode0 ''{}'' ch0)) = []"
    by blast
  have "JSON0 ''{}'' = Returns ''obj''" by (simp add: JSON0_def)
  with 1 2 3 4 q show ?thesis by simp
qed

text \<open>
  The claim as stated fails. When the callback of \<open>n1\<close> throws, the loop ends with it:
  the callback of \<open>n2\<close> is not called and the exception leaves the listener. When the
  callback of \<open>n1\<close> deregisters \<open>n2\<close>, the loop reads \<open>this.callbacks['n2']\<close> as
  \<open>undefined\<close> at the turn of \<open>n2\<close> and raises: again the callback of \<open>n2\<close> is not
  called for the frame.
\<close>

theorem one_callback_stops_the_rest:
  "on_message H_throw JSON0 decode0 ''{}'' ch0 =
     ([JSONParse ''{}'', Callback ''n1'' 7 ''obj''], True, ch0) \<and>
   on_message H_dereg JSON0 decode0 ''{}'' ch0 =
     ([JSONParse ''{}'', Callback ''n1'' 7 ''obj''], True, degisterInterest ''n2'' ch0) \<and>
   lookup (callbacks ch0) ''n2'' = Some \<lparr>deviceId = ''cam2'', callback = 8\<rparr>"
  by (simp add: on_message_def dispatch_def Object_keys_def callbacks_ch0 lookup_def JSON0_def
      H_throw_def H_dereg_def apply_calls_def apply_call_def degisterInterest_def
      delete_key_def)

subsection \<open>Routing of frames\<close>

lemma forEach_only_calls:
  "all_calls (fst (forEach_callback H v Nodes ch)) = fst (forEach_callback H v Nodes ch)"
proof (induction Nodes arbitrary: ch)
  case Nil
  then show ?case by (simp add: all_calls_def)
next
  case (Cons Node Nodes)
  show ?case
  proof (cases "lookup (callbacks ch) Node")
    case None
    then show ?thesis by (simp add: all_calls_def)
  next
    case (Some i)
    obtain calls throws where h: "H (callback i) v = (calls, throws)"
      by (cases "H (callback i) v")
    show ?thesis
    proof (cases throws)
      case True
      with Some h show ?thesis by (simp add: all_calls_def)
    next
      case False
      with h have "H (callback i) v = (calls, False)" by simp
      from forEach_Cons_returns[where H=H and v=v and Nodes=Nodes, OF Some this] Cons[of "apply_calls calls ch"]
      show ?thesis
        by (simp add: all_calls_def del: forEach_callback.simps)
    qed
  qed
qed

lemma dispatch_no_decoder_call:
  "DecodeUpdatePacket data \<notin> set (fst (dispatch H v ch))"
proof -
  have "DecodeUpdatePacket data \<notin> set (all_calls (fst (dispatch H v ch)))"
    by (auto simp: all_calls_def)
  then show ?thesis by (simp add: dispatch_def forEach_only_calls)
qed

text \<open>
  Claim C7, as the code has it. The listener parses every frame as JSON first. When that
  returns, the value is dispatched and the decoder is not called. When it throws, and only
  then, the decoder is called with the frame, and the value it returns, whatever it is, is
  dispatched. There is nothing in the listener for a failure of the decoder: when the
  decoder throws, no callback is called for the frame, the exception leaves the listener
  and the channel is as before. The listener itself assigns no field of the channel: with
  callbacks that call nothing and do not throw, the calls are those of all registered
  callbacks, the channel, and with it the socket and the registry, is as before, and a
  later frame is handled as if the earlier one had not come.
\<close>

theorem decode_routing:
  "(J data = Returns v \<longrightarrow>
      on_message H J D data ch =
        (JSONParse data # fst (dispatch H v ch), snd (dispatch H v ch))) \<and>
   (J data = Throws \<and> D data = Returns v \<longrightarrow>
      on_message H J D data ch =
        (JSONParse data # DecodeUpdatePacket data # fst (dispatch H v ch),
         snd (dispatch H v ch))) \<and>
   (DecodeUpdatePacket data \<in> set (fst (on_message H J D data ch)) \<longleftrightarrow> J data = Throws) \<and>
   (J data = Throws \<and> D data = Throws \<longrightarrow>
      on_message H J D data ch = ([JSONParse data, DecodeUpdatePacket data], True, ch) \<and>
      all_calls (fst (on_message H J D data ch)) = [] \<and>
      snd (ws_emit H J D (Message data) ch) = ch) \<and>
   (silent H \<longrightarrow>
      (J data = Returns v \<longrightarrow>
         on_message H J D data ch =
           (JSONParse data # callback_calls (callbacks ch) v, False, ch)) \<and>
      (J data = Throws \<and> D data = Returns v \<longrightarrow>
         on_message H J D data ch =
           (JSONParse data # DecodeUpdatePacket data # callback_calls (callbacks ch) v,
            False, ch)) \<and>
      snd (ws_emit H J D (Message data) ch) = ch \<and>
      channel_run E H J D [Emit (Message data), Emit (Message data')] ch =
        (fst (ws_emit H J D (Message data) ch) @ fst (ws_emit H J D (Message data') ch), ch))"
proof -
  note nd = dispatch_no_decoder_call[of data H _ ch]
  have 1: "J data = Returns v \<longrightarrow>
      on_message H J D data ch =
        (JSONParse data # fst (dispatch H v ch), snd (dispatch H v ch))"
    by (simp add: on_message_def split: prod.splits)
  have 2: "J data = Throws \<and> D data = Returns v \<longrightarrow>
      on_message H J D data ch =
        (JSONParse data # DecodeUpdatePacket data # fst (dispatch H v ch),
         snd (dispatch H v ch))"
    by (simp add: on_message_def split: prod.splits)
  have 3: "DecodeUpdatePacket data \<in> set (fst (on_message H J D data ch)) \<longleftrightarrow> J data = Throws"
    using nd by (simp add: on_message_cases split: js_result.splits)
  have 4: "J data = Throws \<and> D data = Throws \<longrightarrow>
      on_message H J D data ch = ([JSONParse data, DecodeUpdatePacket data], True, ch) \<and>
      all_calls (fst (on_message H J D data ch)) = [] \<and>
      snd (ws_emit H J D (Message data) ch) = ch"
    by (simp add: on_message_def all_calls_def ws_emit_def split: option.splits)
  have 5: "silent H \<longrightarrow>
      (J data = Returns v \<longrightarrow>
         on_message H J D data ch =
           (JSONParse data # callback_calls (callbacks ch) v, False, ch)) \<and>
      (J data = Throws \<and> D data = Returns v \<longrightarrow>
         on_message H J D data ch =
           (JSONParse data # DecodeUpdatePacket data # callback_calls (callbacks ch) v,
            False, ch)) \<and>
      snd (ws_emit H J D (Message data) ch) = ch \<and>
      channel_run E H J D [Emit (Message data), Emit (Message data')] ch =
        (fst (ws_emit H J D (Message data) ch) @ fst (ws_emit H J D (Message data') ch), ch)"
  proof
    assume s: "silent H"
    have o: "snd (snd (on_message H J D x ch)) = ch" for x
      by (simp add: on_message_def dispatch_silent[OF s] split: js_result.splits)
    have e: "snd (ws_emit H J D (Message x) ch) = ch" for x
      using o[of x] by (simp add: ws_emit_cases split: option.splits)
    have r: "channel_run E H J D [Emit (Message data), Emit (Message data')] ch =
        (fst (ws_emit H J D (Message data) ch) @ fst (ws_emit H J D (Message data') ch), ch)"
    proof -
      obtain a1 where a1: "ws_emit H J D (Message data) ch = (a1, ch)"
        using e[of data] by (cases "ws_emit H J D (Message data) ch") simp
      obtain a2 where a2: "ws_emit H J D (Message data') ch = (a2, ch)"
        using e[of data'] by (cases "ws_emit H J D (Message data') ch") simp
      show ?thesis by (simp add: channel_step_def a1 a2)
    qed
    show "(J data = Returns v \<longrightarrow>
         on_message H J D data ch =
           (JSONParse data # callback_calls (callbacks ch) v, False, ch)) \<and>
      (J data = Throws \<and> D data = Returns v \<longrightarrow>
         on_message H J D data ch =
           (JSONParse data # DecodeUpdatePacket data # callback_calls (callbacks ch) v,
            False, ch)) \<and>
      snd (ws_emit H J D (Message data) ch) = ch \<and>
      channel_run E H J D [Emit (Message data), Emit (Message data')] ch =
        (fst (ws_emit H J D (Message data) ch) @ fst (ws_emit H J D (Message data') ch), ch)"
      using e[of data] r
      by (simp add: on_message_def dispatch_silent[OF s])
  qed
  from 1 2 3 4 5 show ?thesis by blast
qed

theorem decode_routing_witness:
  "silent H0 \<and>
   on_message H0 JSON0 decode0 ''{}'' ch0 =
     ([JSONParse ''{}'', Callback ''n1'' 7 ''obj'', Callback ''n2'' 8 ''obj''], False, ch0) \<and>
   on_message H0 JSON0 decode0 ''bin'' ch0 =
     ([JSONParse ''bin'', DecodeUpdatePacket ''bin'', Callback ''n1'' 7 ''pkt'',
       Callback ''n2'' 8 ''pkt''], False, ch0) \<and>
   on_message H0 JSON0 decode0 ''zzz'' ch0 =
     ([JSONParse ''zzz'', DecodeUpdatePacket ''zzz''], True, ch0) \<and>
   snd (ws_emit H0 JSON0 decode0 (Message ''zzz'') ch0) = ch0"
proof -
  have s: "silent H0" by (simp add: silent_def H0_def)
  have d: "callback_calls (callbacks ch0) v = [Callback ''n1'' 7 v, Callback ''n2'' 8 v]"
    for v :: string
    by (simp add: callbacks_ch0 callback_calls_def Object_keys_def lookup_def List.map_filter_def)
  have j: "JSON0 ''{}'' = Returns ''obj''"
    "JSON0 ''bin'' = Throws \<and> decode0 ''bin'' = Returns ''pkt''"
    "JSON0 ''zzz'' = Throws \<and> decode0 ''zzz'' = Throws"
    by (simp_all add: JSON0_def decode0_def)
  from decode_routing[of JSON0 "''{}''" "''obj''" H0 decode0 ch0 E0 "''{}''"] s j(1)
  have 1: "on_message H0 JSON0 decode0 ''{}'' ch0 =
      (JSONParse ''{}'' # callback_calls (callbacks ch0) ''obj'', False, ch0)"
    by blast
  from decode_routing[of JSON0 "''bin''" "''pkt''" H0 decode0 ch0 E0 "''{}''"] s j(2)
  have 2: "on_message H0 JSON0 decode0 ''bin'' ch0 =
      (JSONParse ''bin'' # DecodeUpdatePacket ''bin'' # callback_calls (callbacks ch0) ''pkt'',
       False, ch0)"
    by blast
  from decode_routing[of JSON0 "''zzz''" "''pkt''" H0 decode0 ch0 E0 "''{}''"] j(3)
  have 3: "on_message H0 JSON0 decode0 ''zzz'' ch0 =
      ([JSONParse ''zzz'', DecodeUpdatePacket ''zzz''], True, ch0)"
    "snd (ws_emit H0 JSON0 decode0 (Message ''zzz'') ch0) = ch0"
    by blast+
  from 1 2 3 s show ?thesis by (simp add: d)
qed

text \<open>
  The claim as stated fails: a frame that neither path can decode is not dropped by the
  listener. With a decoder that throws, the exception leaves the listener; with a decoder
  that returns a value for such a frame, that value is dispatched to every callback.
\<close>

theorem decode_failure_not_dropped:
  "on_message H0 JSON0 decode0 ''zzz'' ch0 =
     ([JSONParse ''zzz'', DecodeUpdatePacket ''zzz''], True, ch0) \<and>
   on_message H0 JSON0 decode1 ''zzz'' ch0 =
     ([JSONParse ''zzz'', DecodeUpdatePacket ''zzz'', Callback ''n1'' 7 ''null'',
       Callback ''n2'' 8 ''null''], False, ch0)"
  by (simp add: on_message_def JSON0_def decode0_def decode1_def dispatch_def Object_keys_def
      lookup_def callbacks_ch0 H0_def apply_calls_def)

subsection \<open>Loss of the connection\<close>

text \<open>
  A call of \<open>Connect\<close> keeps the registry. But nothing in the class calls
  \<open>Connect\<close> again: whatever events the socket emits, no socket is created and the
  channel keeps the one it has.
\<close>

lemma Connect_keeps_registry:
  "callbacks (snd (Connect E c ch :: 'p action list \<times> channel)) = callbacks ch \<and>
   callbacks_proto (snd (Connect E c ch :: 'p action list \<times> channel)) = callbacks_proto ch"
  by (simp add: Connect_def)

lemma apply_calls_keeps_socket: "WS (apply_calls cs ch) = WS ch"
  unfolding apply_calls_def
proof (induction cs arbitrary: ch)
  case Nil
  then show ?case by simp
next
  case (Cons c cs)
  have "WS (apply_call c ch) = WS ch"
    by (cases c)
       (simp_all add: apply_call_def registerInterest_def degisterInterest_def
          updateLastUpdateId_def)
  with Cons show ?case by simp
qed

lemma forEach_keeps_socket: "WS (snd (snd (forEach_callback H v Nodes ch))) = WS ch"
proof (induction Nodes arbitrary: ch)
  case Nil
  then show ?case by simp
next
  case (Cons Node Nodes)
  show ?case
  proof (cases "lookup (callbacks ch) Node")
    case None
    then show ?thesis by simp
  next
    case (Some i)
    obtain calls throws where h: "H (callback i) v = (calls, throws)"
      by (cases "H (callback i) v")
    show ?thesis
    proof (cases throws)
      case True
      with Some h show ?thesis by (simp add: apply_calls_keeps_socket)
    next
      case False
      with h have "H (callback i) v = (calls, False)" by simp
      from forEach_Cons_returns[where H=H and v=v and Nodes=Nodes, OF Some this] Cons[of "apply_calls calls ch"]
      show ?thesis
        by (simp add: apply_calls_keeps_socket del: forEach_callback.simps)
    qed
  qed
qed

lemma on_message_no_socket:
  "WS (snd (snd (on_message H J D data ch))) = WS ch \<and>
   NewWebSocket url c \<notin> set (fst (on_message H J D data ch))"
proof -
  have n: "NewWebSocket url c \<notin> set (fst (dispatch H v ch))" for v
  proof -
    have "NewWebSocket url c \<notin> set (all_calls (fst (dispatch H v ch)))"
      by (auto simp: all_calls_def)
    then show ?thesis by (simp add: dispatch_def forEach_only_calls)
  qed
  have w: "WS (snd (snd (dispatch H v ch))) = WS ch" for v
    by (simp add: dispatch_def forEach_keeps_socket)
  show ?thesis
    using n w by (simp add: on_message_cases split: js_result.splits)
qed

lemma ws_emit_no_socket:
  "WS (snd (ws_emit H J D ev ch)) = WS ch \<and> NewWebSocket url c \<notin> set (fst (ws_emit H J D ev ch))"
  using on_message_no_socket[of H J D _ ch url c]
  by (simp add: ws_emit_cases split: option.splits ws_event.splits)

lemma socket_events_open_no_socket:
  "WS (snd (channel_run E H J D (map Emit evs) ch)) = WS ch \<and>
   NewWebSocket url c \<notin> set (fst (channel_run E H J D (map Emit evs) ch))"
proof (induction evs arbitrary: ch)
  case Nil
  then show ?case by simp
next
  case (Cons ev evs)
  obtain a ch1 where s: "ws_emit H J D ev ch = (a, ch1)"
    by (cases "ws_emit H J D ev ch")
  with ws_emit_no_socket[of H J D ev ch url c]
  have 1: "WS ch1 = WS ch" "NewWebSocket url c \<notin> set a" by simp_all
  obtain a' ch2 where r: "channel_run E H J D (map Emit evs) ch1 = (a', ch2)"
    by (cases "channel_run E H J D (map Emit evs) ch1")
  with Cons[of ch1] have 2: "WS ch2 = WS ch1" "NewWebSocket url c \<notin> set a'" by simp_all
  from s r 1 2 show ?case by (simp add: channel_step_def)
qed

text \<open>
  Claim C3 at a failing input (the code departs from the claim and from its own comment).
  On the connected channel with two registered interests the server closes the socket.
  No code of the channel runs: nothing is done and the channel keeps the closed socket.
  On an \<open>error\<close> event the only thing that happens is the exception of the emitter.
  No second socket is created and none is scheduled.
\<close>

theorem close_triggers_no_reconnect:
  "channel_run E0 H0 JSON0 decode0 [Emit Close] ch0 = ([], ch0) \<and>
   channel_run E0 H0 JSON0 decode0 [Emit Error] ch0 = ([Uncaught], ch0) \<and>
   WS ch0 = Some \<lparr>ws_url = ''wss://10.0.0.1/proxy/protect/ws/updates?lastUpdateId=u1'',
                   ws_cookie = Some ''TOKEN123; Path=/''\<rparr>"
proof -
  have w: "WS ch0 = Some \<lparr>ws_url = ''wss://10.0.0.1/proxy/protect/ws/updates?lastUpdateId=u1'',
                   ws_cookie = Some ''TOKEN123; Path=/''\<rparr>"
    by (simp add: ch0_def inputs0_def channel_step_def registerInterest_def new_channel_def
        Connect_def Connect_url_def E0_def cfg0_def)
  show ?thesis
    by (simp add: channel_step_def ws_emit_def w)
qed

section \<open>Properties of the session manager\<close>

subsection \<open>White space\<close>

text \<open>The rounds given to \<open>trimStart\<close> suffice: no white space is left at the start.\<close>

lemma strip_one_shorter: "strip_one ws str = Some rest \<Longrightarrow> length rest < length str"
proof (induction ws)
  case Nil
  then show ?case by simp
next
  case (Cons w ws)
  show ?case
  proof (cases "w \<noteq> [] \<and> take (length w) str = w")
    case True
    then have "str \<noteq> []" by auto
    with True Cons.prems show ?thesis by auto
  next
    case False
    with Cons show ?thesis by auto
  qed
qed

lemma strip_one_empty: "strip_one ws [] = None"
  by (induction ws) auto

lemma strip_rounds_done:
  "length str \<le> n \<Longrightarrow> strip_one ws (strip_rounds n ws str) = None"
proof (induction n arbitrary: str)
  case 0
  then show ?case by (simp add: strip_one_empty)
next
  case (Suc n)
  show ?case
  proof (cases "strip_one ws str")
    case None
    then show ?thesis by simp
  next
    case (Some rest)
    from strip_one_shorter[OF Some] Suc.prems have "length rest \<le> n" by simp
    from Suc.IH[OF this] Some show ?thesis by simp
  qed
qed

lemma trimStart_done: "strip_one white_space (trimStart str) = None"
  by (simp add: trimStart_def strip_rounds_done)

subsection \<open>Evaluating runs of the concrete node\<close>

lemmas ac_defs = run_def step_def getAuthCookie_def authenticateWithRetry_def truthy_def
  urlBuilder_def to_string_def or_empty_def E0_def cfg0_def login_done_def login_then_def login_catch_def
  resolve_cookie_def run_waiter_def getBootstrap_def request_def axiosRequest_def issue_def
  request_done_def request_then_def request_catch_def resolve_request_def reject_request_def
  timer_fires_def close_def refresh_def first_set_cookie_def bootstrapURI_def Let_def

lemma node0_simps:
  "node0 = \<lparr>node_config = cfg0, node_id = ''ac1'', username = ''admin'', password = ''secret'',
    initialized = False, authenticated = False, stopped = False,
    controllerType = UniFiOSConsole, aborted = False, authCookie = None,
    bootstrapObject = None, refreshTimeout = True,
    cookiePromises = [Pending], waiters = [(0, RefreshThen (Some True))],
    loginsInFlight = [0], requests = [], requestsInFlight = [],
    thenBootstrap = [], timers = [],
    effects = [AxiosPostLogin 0 ''https://10.0.0.1/api/auth/login'' ''admin'' ''secret'']\<rparr>"
  by (simp add: node0_def body_def refresh_def getAuthCookie_def authenticateWithRetry_def
      truthy_def urlBuilder_def to_string_def E0_def cfg0_def)

lemma node1_simps:
  "node1 = \<lparr>node_config = cfg0, node_id = ''ac1'', username = ''admin'', password = ''secret'',
    initialized = True, authenticated = True, stopped = False,
    controllerType = UniFiOSConsole, aborted = False, authCookie = Some ''TOKEN123; Path=/'',
    bootstrapObject = None, refreshTimeout = True,
    cookiePromises = [Fulfilled (Some ''TOKEN123; Path=/'')], waiters = [],
    loginsInFlight = [],
    requests = [\<lparr>req_nodeId = ''ac1'', req_url = ''https://10.0.0.1/proxy/protect/api/bootstrap'',
                 req_method = Some ''GET'', req_data = None, req_responseType = Some ''json'',
                 req_promise = Pending\<rparr>],
    requestsInFlight = [0], thenBootstrap = [0], timers = [],
    effects = [AxiosPostLogin 0 ''https://10.0.0.1/api/auth/login'' ''admin'' ''secret'',
               AxiosRequest 0 ''https://10.0.0.1/proxy/protect/api/bootstrap'' (Some ''GET'') None
                 ''TOKEN123; Path=/'' ''ac1'']\<rparr>"
  by (simp add: node1_def node0_simps ac_defs)

lemma run_snoc: "run E (evs @ [ev]) s = step E ev (run E evs s)"
  by (simp add: run_def)

subsection \<open>The credential and the \<open>authenticated\<close> flag\<close>

text \<open>Only three handlers assign the two fields; every other function leaves them alone.\<close>

lemma same_cred_refl: "same_cred s s"
  by (simp add: same_cred_def)

lemma same_cred_trans: "same_cred s t \<Longrightarrow> same_cred t u \<Longrightarrow> same_cred s u"
  by (simp add: same_cred_def)

lemma cred_authenticateWithRetry: "same_cred s (authenticateWithRetry E p s)"
  by (simp add: same_cred_def authenticateWithRetry_def)

lemma cred_getAuthCookie: "same_cred s (snd (getAuthCookie E rg s))"
  by (simp add: same_cred_def getAuthCookie_def authenticateWithRetry_def)

lemma cred_issue: "same_cred s (issue r c s)"
  by (simp add: same_cred_def issue_def)

lemma cred_axiosRequest: "same_cred s (axiosRequest E r s)"
  by (simp add: same_cred_def axiosRequest_def getAuthCookie_def authenticateWithRetry_def issue_def)

lemma cred_request: "same_cred s (snd (request E n e m d rt s))"
proof -
  have "same_cred t (axiosRequest E r t)" for t r by (rule cred_axiosRequest)
  then show ?thesis
    by (auto simp: request_def Let_def same_cred_def)
qed

lemma cred_getBootstrap: "same_cred s (getBootstrap E s)"
proof -
  obtain r s' where q: "request E (node_id s) (Some bootstrapURI) (Some ''GET'') None (Some ''json'') s = (r, s')"
    by (cases "request E (node_id s) (Some bootstrapURI) (Some ''GET'') None (Some ''json'') s")
  with cred_request[of s E "node_id s" "Some bootstrapURI" "Some ''GET''" None "Some ''json''"]
  show ?thesis by (simp add: getBootstrap_def same_cred_def)
qed

lemma cred_run_waiter: "same_cred s (run_waiter E v w s)"
proof (cases w)
  case (AwaitInRequest r)
  then show ?thesis using cred_issue by (simp add: run_waiter_def)
next
  case (RefreshThen init)
  show ?thesis
    using cred_getBootstrap[of "s\<lparr>initialized := True\<rparr>" E] cred_getBootstrap[of s E]
    by (simp add: run_waiter_def RefreshThen same_cred_def)
qed

lemma cred_fold_waiters: "same_cred s (fold (run_waiter E v) ws s)"
proof (induction ws arbitrary: s)
  case Nil
  then show ?case by (simp add: same_cred_refl)
next
  case (Cons w ws)
  show ?case
    using same_cred_trans[OF cred_run_waiter[of s E v w] Cons[of "run_waiter E v w s"]]
    by simp
qed

lemma cred_resolve_cookie: "same_cred s (resolve_cookie E p v s)"
proof (cases "p < length (cookiePromises s) \<and> cookiePromises s ! p = Pending")
  case True
  have "same_cred s (s\<lparr>cookiePromises := (cookiePromises s)[p := Fulfilled v],
                waiters := filter (\<lambda>pw. fst pw \<noteq> p) (waiters s)\<rparr>)"
    by (simp add: same_cred_def)
  from same_cred_trans[OF this cred_fold_waiters] True
  show ?thesis by (simp add: resolve_cookie_def)
next
  case False
  then show ?thesis by (auto simp add: resolve_cookie_def same_cred_refl)
qed

lemma cred_refresh: "same_cred s (refresh E init s)"
proof (cases "getAuthCookie E (Some True) s")
  case (Pair cp s')
  with cred_getAuthCookie[of s E "Some True"] have c: "same_cred s s'" by simp
  show ?thesis
  proof (cases cp)
    case (Settled c')
    with Pair same_cred_trans[OF c cred_run_waiter] show ?thesis by (simp add: refresh_def)
  next
    case (Created p)
    with Pair c show ?thesis by (simp add: refresh_def same_cred_def)
  qed
qed

lemma cred_close: "same_cred s (close E s)"
  by (simp add: close_def same_cred_def Let_def)

lemma cred_resolve_request: "same_cred s (resolve_request r d s)"
  by (simp add: resolve_request_def same_cred_def Let_def)

lemma cred_reject_request: "same_cred s (reject_request r e s)"
  by (simp add: reject_request_def same_cred_def)

lemma login_done_cases:
  "same_cred s (login_done E p oc s) \<or>
   (authCookie (login_done E p oc s) = None \<and> \<not> authenticated (login_done E p oc s)) \<or>
   (\<exists>sc. oc = LoginResponse 200 sc \<and> authCookie (login_done E p oc s) = first_set_cookie sc \<and>
         authenticated (login_done E p oc s))"
proof (cases "p \<in> set (loginsInFlight s)")
  case False
  then show ?thesis by (simp add: login_done_def same_cred_refl)
next
  case True
  let ?s0 = "s\<lparr>loginsInFlight := remove1 p (loginsInFlight s)\<rparr>"
  have c: "authCookie (login_catch E p r ?s0) = None \<and> \<not> authenticated (login_catch E p r ?s0)" for r
    by (simp add: login_catch_def Let_def)
  show ?thesis
  proof (cases "if aborted s then LoginRejected AbortError else oc")
    case (LoginRejected r)
    with True c[of r] show ?thesis by (simp add: login_done_def)
  next
    case (LoginResponse st sc)
    then have oc: "oc = LoginResponse st sc" "\<not> aborted s" by (auto split: if_splits)
    show ?thesis
    proof (cases "st = 200")
      case False
      with True oc show ?thesis by (simp add: login_done_def login_then_def same_cred_def)
    next
      case st: True
      have "same_cred (?s0\<lparr>authCookie := first_set_cookie sc, authenticated := True\<rparr>)
              (resolve_cookie E p (first_set_cookie sc)
                 (?s0\<lparr>authCookie := first_set_cookie sc, authenticated := True\<rparr>))"
        by (rule cred_resolve_cookie)
      with True oc st show ?thesis
        by (simp add: login_done_def login_then_def same_cred_def)
    qed
  qed
qed

lemma request_done_cases:
  "same_cred s (request_done E r oc s) \<or>
   (authCookie (request_done E r oc s) = None \<and> \<not> authenticated (request_done E r oc s))"
proof (cases "r \<in> set (requestsInFlight s)")
  case False
  then show ?thesis by (simp add: request_done_def same_cred_refl)
next
  case True
  let ?s0 = "s\<lparr>requestsInFlight := remove1 r (requestsInFlight s)\<rparr>"
  show ?thesis
  proof (cases oc)
    case (Response d)
    with True cred_resolve_request[of ?s0 r d] show ?thesis
      by (simp add: request_done_def request_then_def same_cred_def)
  next
    case (RequestRejected e)
    have "same_cred t (reject_request r e t)" for t by (rule cred_reject_request)
    then have "\<And>t. authCookie (reject_request r e t) = authCookie t \<and>
        authenticated (reject_request r e t) = authenticated t"
      by (simp add: same_cred_def)
    with True RequestRejected show ?thesis
      by (cases e) (simp_all add: request_done_def request_catch_def same_cred_def)
  qed
qed

lemma timer_fires_cred: "same_cred s (timer_fires E t s)"
proof (cases "t \<in> set (timers s)")
  case False
  then show ?thesis by (simp add: timer_fires_def same_cred_refl)
next
  case True
  have a: "same_cred s (s\<lparr>timers := remove1 t (timers s)\<rparr>)" by (simp add: same_cred_def)
  show ?thesis
  proof (cases t)
    case (LoginRetry p)
    with True same_cred_trans[OF a cred_authenticateWithRetry] show ?thesis
      by (simp add: timer_fires_def)
  next
    case (Resend r)
    with True same_cred_trans[OF a cred_axiosRequest] show ?thesis
      by (simp add: timer_fires_def)
  qed
qed

lemma step_cases:
  "same_cred s (step E ev s) \<or>
   (authCookie (step E ev s) = None \<and> \<not> authenticated (step E ev s)) \<or>
   (\<exists>p sc. ev = LoginDone p (LoginResponse 200 sc) \<and> authCookie (step E ev s) = first_set_cookie sc \<and>
         authenticated (step E ev s))"
proof (cases ev)
  case (CallGetAuthCookie rg)
  then show ?thesis using cred_getAuthCookie by (simp add: step_def)
next
  case (CallRequest n e m d rt)
  then show ?thesis using cred_request by (simp add: step_def)
next
  case (LoginDone p oc)
  then show ?thesis using login_done_cases[of s E p oc] by (auto simp: step_def)
next
  case (RequestDone r oc)
  then show ?thesis using request_done_cases[of s E r oc] by (auto simp: step_def)
next
  case (TimerFires t)
  then show ?thesis using timer_fires_cred by (simp add: step_def)
next
  case IntervalFires
  then show ?thesis using cred_refresh by (simp add: step_def same_cred_refl)
next
  case CloseNode
  then show ?thesis using cred_close by (simp add: step_def)
qed

lemma step_cookie_implies_auth:
  "cookie_implies_auth s \<Longrightarrow> cookie_implies_auth (step E ev s)"
  using step_cases[of s E ev]
  by (auto simp: cookie_implies_auth_def same_cred_def)

lemma step_two_valued:
  "session_header_present ev \<Longrightarrow> two_valued s \<Longrightarrow> two_valued (step E ev s)"
  using step_cases[of s E ev]
  by (auto simp: two_valued_def same_cred_def session_header_present_def)

lemma body_cred:
  "authCookie (body E cfg i u pw) = None \<and> \<not> authenticated (body E cfg i u pw)"
proof -
  let ?s = "\<lparr>node_config = cfg, node_id = i, username = u, password = pw,
        initialized = False, authenticated = False, stopped = False,
        controllerType = (case controllerType_cfg cfg of None \<Rightarrow> UniFiOSConsole | Some t \<Rightarrow> t),
        aborted = False, authCookie = None, bootstrapObject = None, refreshTimeout = True,
        cookiePromises = [], waiters = [], loginsInFlight = [], requests = [],
        requestsInFlight = [], thenBootstrap = [], timers = [], effects = []\<rparr>"
  from cred_refresh[of ?s E "Some True"] show ?thesis
    by (simp add: body_def same_cred_def)
qed

text \<open>
  Claim C8, as the code has it. In every state that a node reaches from its construction
  by calls of \<open>getAuthCookie\<close> and \<open>request\<close>, settled HTTP calls, timers, refreshes and
  \<open>close\<close>, a cached credential implies that the node is marked authenticated. When,
  in addition, every login response with status 200 carried a session header, the node is
  marked authenticated if and only if a credential is cached.
\<close>

theorem credential_state_invariant:
  "(authCookie (run E evs (body E cfg i u pw)) = None \<or>
      authenticated (run E evs (body E cfg i u pw))) \<and>
   ((\<forall>ev \<in> set evs. session_header_present ev) \<longrightarrow>
      authenticated (run E evs (body E cfg i u pw)) =
        (authCookie (run E evs (body E cfg i u pw)) \<noteq> None))"
proof (induction evs rule: rev_induct)
  case Nil
  then show ?case using body_cred[of E cfg i u pw] by (simp add: run_def)
next
  case (snoc ev evs)
  let ?s = "run E evs (body E cfg i u pw)"
  from snoc have 1: "cookie_implies_auth ?s" by (simp add: cookie_implies_auth_def)
  have a: "cookie_implies_auth (step E ev ?s)" by (rule step_cookie_implies_auth[OF 1])
  have b: "two_valued (step E ev ?s)" if "\<forall>e \<in> set (evs @ [ev]). session_header_present e"
  proof -
    from that snoc have "two_valued ?s" by (simp add: two_valued_def)
    with that show ?thesis by (simp add: step_two_valued)
  qed
  from a b show ?case
    by (simp add: run_snoc cookie_implies_auth_def two_valued_def)
qed

theorem credential_state_invariant_witness:
  "session_header_present (LoginDone 0 (LoginResponse 200 (Some [''TOKEN123; Path=/'']))) \<and>
   authenticated node1 \<and> authCookie node1 = Some ''TOKEN123; Path=/''"
proof -
  have h: "\<forall>ev \<in> set [LoginDone 0 (LoginResponse 200 (Some [''TOKEN123; Path=/'']))].
             session_header_present ev"
    by (simp add: session_header_present_def first_set_cookie_def)
  have c: "authCookie node1 = Some ''TOKEN123; Path=/''"
    by (simp add: node1_simps)
  from credential_state_invariant[of E0
        "[LoginDone 0 (LoginResponse 200 (Some [''TOKEN123; Path=/'']))]"
        cfg0 "''ac1''" "''admin''" "''secret''"] h c
  show ?thesis
    by (simp add: node1_def node0_def session_header_present_def first_set_cookie_def)
qed

text \<open>
  The claim as stated fails: after a login response with status 200 and no
  \<open>set-cookie\<close> header the node is marked authenticated and holds no credential.
\<close>

theorem authenticated_without_cookie:
  "authenticated (run E0 [LoginDone 0 (LoginResponse 200 None)] node0) \<and>
   authCookie (run E0 [LoginDone 0 (LoginResponse 200 None)] node0) = None"
  by (simp add: node0_simps ac_defs)

subsection \<open>\<open>getAuthCookie\<close>\<close>








subsection \<open>\<open>request\<close>\<close>

text \<open>Apart from the handlers of a request's own HTTP call, every function only adds requests.\<close>

lemma req_ext_refl: "req_ext s s"
  by (simp add: req_ext_def)

lemma req_ext_trans: "req_ext s t \<Longrightarrow> req_ext t u \<Longrightarrow> req_ext s u"
  by (auto simp: req_ext_def)

lemma req_ext_effects: "req_ext s t \<Longrightarrow> x \<in> set (effects s) \<Longrightarrow> x \<in> set (effects t)"
  by (auto simp: req_ext_def)

lemma req_ext_nth: "req_ext s t \<Longrightarrow> r < length (requests s) \<Longrightarrow>
   r < length (requests t) \<and> requests t ! r = requests s ! r"
  by (auto simp: req_ext_def nth_append)

lemma ext_authenticateWithRetry: "req_ext s (authenticateWithRetry E p s)"
  by (simp add: req_ext_def authenticateWithRetry_def)

lemma ext_getAuthCookie: "req_ext s (snd (getAuthCookie E rg s))"
  by (simp add: req_ext_def getAuthCookie_def authenticateWithRetry_def)

lemma ext_issue: "req_ext s (issue r c s)"
  by (simp add: req_ext_def issue_def)

lemma ext_axiosRequest: "req_ext s (axiosRequest E r s)"
  by (simp add: req_ext_def axiosRequest_def getAuthCookie_def authenticateWithRetry_def issue_def)

lemma requests_axiosRequest: "requests (axiosRequest E r s) = requests s"
  by (simp add: axiosRequest_def getAuthCookie_def authenticateWithRetry_def issue_def)

lemma requests_request:
  "requests (snd (request E n e m d rt s)) = requests s @
      [\<lparr>req_nodeId = n, req_url = urlBuilder E s e, req_method = m, req_data = d,
        req_responseType = rt, req_promise = Pending\<rparr>]"
  by (simp add: request_def Let_def requests_axiosRequest urlBuilder_def)

lemma ext_request: "req_ext s (snd (request E n e m d rt s))"
  by (simp add: req_ext_def request_def Let_def axiosRequest_def getAuthCookie_def
      authenticateWithRetry_def issue_def)

lemma ext_getBootstrap: "req_ext s (getBootstrap E s)"
proof -
  obtain r s' where q: "request E (node_id s) (Some bootstrapURI) (Some ''GET'') None (Some ''json'') s = (r, s')"
    by (cases "request E (node_id s) (Some bootstrapURI) (Some ''GET'') None (Some ''json'') s")
  with ext_request[of s E "node_id s" "Some bootstrapURI" "Some ''GET''" None "Some ''json''"]
  show ?thesis by (simp add: getBootstrap_def req_ext_def)
qed

lemma ext_run_waiter: "req_ext s (run_waiter E v w s)"
proof (cases w)
  case (AwaitInRequest r)
  then show ?thesis using ext_issue by (simp add: run_waiter_def)
next
  case (RefreshThen init)
  show ?thesis
    using ext_getBootstrap[of "s\<lparr>initialized := True\<rparr>" E] ext_getBootstrap[of s E]
    by (simp add: run_waiter_def RefreshThen req_ext_def)
qed

lemma ext_fold_waiters: "req_ext s (fold (run_waiter E v) ws s)"
proof (induction ws arbitrary: s)
  case Nil
  then show ?case by (simp add: req_ext_refl)
next
  case (Cons w ws)
  show ?case
    using req_ext_trans[OF ext_run_waiter[of s E v w] Cons[of "run_waiter E v w s"]]
    by simp
qed

lemma ext_resolve_cookie: "req_ext s (resolve_cookie E p v s)"
proof (cases "p < length (cookiePromises s) \<and> cookiePromises s ! p = Pending")
  case True
  have "req_ext s (s\<lparr>cookiePromises := (cookiePromises s)[p := Fulfilled v],
                waiters := filter (\<lambda>pw. fst pw \<noteq> p) (waiters s)\<rparr>)"
    by (simp add: req_ext_def)
  from req_ext_trans[OF this ext_fold_waiters] True
  show ?thesis by (simp add: resolve_cookie_def)
next
  case False
  then show ?thesis by (auto simp add: resolve_cookie_def req_ext_refl)
qed

lemma ext_refresh: "req_ext s (refresh E init s)"
proof (cases "getAuthCookie E (Some True) s")
  case (Pair cp s')
  with ext_getAuthCookie[of s E "Some True"] have c: "req_ext s s'" by simp
  show ?thesis
  proof (cases cp)
    case (Settled c')
    with Pair req_ext_trans[OF c ext_run_waiter] show ?thesis by (simp add: refresh_def)
  next
    case (Created p)
    with Pair c show ?thesis by (simp add: refresh_def req_ext_def)
  qed
qed

lemma ext_close: "req_ext s (close E s)"
  by (simp add: close_def req_ext_def Let_def)

lemma ext_login_done: "req_ext s (login_done E p oc s)"
proof (cases "p \<in> set (loginsInFlight s)")
  case False
  then show ?thesis by (simp add: login_done_def req_ext_refl)
next
  case True
  let ?s0 = "s\<lparr>loginsInFlight := remove1 p (loginsInFlight s)\<rparr>"
  have c: "req_ext s (login_catch E p r ?s0)" for r
    by (simp add: login_catch_def Let_def req_ext_def)
  have t: "req_ext s (login_then E p st sc ?s0)" for st sc
  proof (cases "st = 200")
    case False
    then show ?thesis by (simp add: login_then_def req_ext_def)
  next
    case True
    have "req_ext s (?s0\<lparr>authCookie := first_set_cookie sc, authenticated := True\<rparr>)"
      by (simp add: req_ext_def)
    from req_ext_trans[OF this ext_resolve_cookie] True show ?thesis
      by (simp add: login_then_def)
  qed
  show ?thesis
    using True c t by (simp add: login_done_def split: login_outcome.splits)
qed

lemma ext_timer_fires: "req_ext s (timer_fires E t s)"
proof (cases "t \<in> set (timers s)")
  case False
  then show ?thesis by (simp add: timer_fires_def req_ext_refl)
next
  case True
  have a: "req_ext s (s\<lparr>timers := remove1 t (timers s)\<rparr>)" by (simp add: req_ext_def)
  show ?thesis
  proof (cases t)
    case (LoginRetry p)
    with True req_ext_trans[OF a ext_authenticateWithRetry] show ?thesis
      by (simp add: timer_fires_def)
  next
    case (Resend r)
    with True req_ext_trans[OF a ext_axiosRequest] show ?thesis
      by (simp add: timer_fires_def)
  qed
qed

text \<open>The promise of a request changes only when its HTTP call settles, and only once.\<close>

lemma request_done_promise:
  assumes "r < length (requests s)"
  shows "r < length (requests (request_done E q oc s)) \<and>
     (req_promise (requests (request_done E q oc s) ! r) = req_promise (requests s ! r) \<or>
      (q = r \<and> req_promise (requests s ! r) = Pending \<and>
       req_promise (requests (request_done E q oc s) ! r) = settles oc))"
proof (cases "q \<in> set (requestsInFlight s)")
  case False
  with assms show ?thesis by (simp add: request_done_def)
next
  case True
  show ?thesis
  proof (cases oc)
    case (Response d)
    with True assms show ?thesis
      by (auto simp: request_done_def request_then_def resolve_request_def Let_def settles_def
          nth_list_update)
  next
    case (RequestRejected e)
    with True assms show ?thesis
      by (cases e)
         (auto simp: request_done_def request_catch_def reject_request_def settles_def
            nth_list_update)
  qed
qed

lemma step_promise:
  assumes "r < length (requests s)"
  shows "r < length (requests (step E ev s)) \<and>
     (req_promise (requests (step E ev s) ! r) = req_promise (requests s ! r) \<or>
      (\<exists>oc. ev = RequestDone r oc \<and> req_promise (requests s ! r) = Pending \<and>
       req_promise (requests (step E ev s) ! r) = settles oc))"
proof (cases ev)
  case (CallGetAuthCookie rg)
  then show ?thesis using req_ext_nth[OF ext_getAuthCookie assms] by (simp add: step_def)
next
  case (CallRequest n e m d rt)
  then show ?thesis using req_ext_nth[OF ext_request assms] by (simp add: step_def)
next
  case (LoginDone p oc)
  then show ?thesis using req_ext_nth[OF ext_login_done assms] by (simp add: step_def)
next
  case (RequestDone q oc)
  then show ?thesis using request_done_promise[OF assms, of E q oc] by (auto simp: step_def)
next
  case (TimerFires t)
  then show ?thesis using req_ext_nth[OF ext_timer_fires assms] by (simp add: step_def)
next
  case IntervalFires
  then show ?thesis using req_ext_nth[OF ext_refresh assms] assms by (simp add: step_def)
next
  case CloseNode
  then show ?thesis using req_ext_nth[OF ext_close assms] by (simp add: step_def)
qed

lemma run_promise:
  assumes "r < length (requests s)" and "req_promise (requests s ! r) = Pending"
  shows "r < length (requests (run E evs s)) \<and>
     (req_promise (requests (run E evs s) ! r) = Pending \<or>
      (\<exists>oc. RequestDone r oc \<in> set evs \<and>
         req_promise (requests (run E evs s) ! r) = settles oc))"
proof (induction evs rule: rev_induct)
  case Nil
  with assms show ?case by (simp add: run_def)
next
  case (snoc ev evs)
  then have l: "r < length (requests (run E evs s))" by simp
  from step_promise[OF l, of E ev] snoc show ?case
    by (auto simp: run_snoc)
qed

text \<open>When a promise of \<open>getAuthCookie\<close> is fulfilled, a request waiting for it is sent.\<close>

lemma fold_waiters_issues:
  "AwaitInRequest r \<in> set ws \<Longrightarrow> r < length (requests t) \<Longrightarrow>
   AxiosRequest r (req_url (requests t ! r)) (req_method (requests t ! r))
     (req_data (requests t ! r)) (or_empty v) (req_nodeId (requests t ! r))
     \<in> set (effects (fold (run_waiter E v) ws t))"
proof (induction ws arbitrary: t)
  case Nil
  then show ?case by simp
next
  case (Cons w ws)
  let ?t' = "run_waiter E v w t"
  have n: "r < length (requests ?t') \<and> requests ?t' ! r = requests t ! r"
    by (rule req_ext_nth[OF ext_run_waiter Cons.prems(2)])
  show ?case
  proof (cases "w = AwaitInRequest r")
    case True
    with Cons.prems(2) have "AxiosRequest r (req_url (requests t ! r)) (req_method (requests t ! r))
     (req_data (requests t ! r)) (or_empty v) (req_nodeId (requests t ! r)) \<in> set (effects ?t')"
      by (simp add: run_waiter_def issue_def)
    from req_ext_effects[OF ext_fold_waiters this] show ?thesis by simp
  next
    case False
    with Cons.prems(1) have "AwaitInRequest r \<in> set ws" by simp
    from Cons.IH[OF this, of ?t'] n show ?thesis by simp
  qed
qed

lemma resolve_cookie_issues:
  assumes "(p, AwaitInRequest r) \<in> set (waiters t)" and "r < length (requests t)"
    and "p < length (cookiePromises t)" and "cookiePromises t ! p = Pending"
  shows "AxiosRequest r (req_url (requests t ! r)) (req_method (requests t ! r))
     (req_data (requests t ! r)) (or_empty v) (req_nodeId (requests t ! r))
     \<in> set (effects (resolve_cookie E p v t))"
proof -
  let ?t0 = "t\<lparr>cookiePromises := (cookiePromises t)[p := Fulfilled v],
                waiters := filter (\<lambda>pw. fst pw \<noteq> p) (waiters t)\<rparr>"
  from assms(1) have m: "AwaitInRequest r \<in> set (map snd (filter (\<lambda>pw. fst pw = p) (waiters t)))"
    by force
  have "r < length (requests ?t0)" using assms(2) by simp
  from fold_waiters_issues[OF m this, of v E] assms(3,4) show ?thesis
    by (simp add: resolve_cookie_def)
qed

text \<open>
  Claim C10. A call of \<open>request\<close> with an empty or missing endpoint or method returns a
  new pending promise for a request whose URL is built from that endpoint. The rejected
  promises with the messages \<open>endpoint cannot be empty!\<close> and \<open>method cannot be empty!\<close>
  are created and held by nobody. With a cached credential the HTTP call is made at once,
  with that URL; without one a login is started and the request waits for it, and when that
  login is answered with status 200 the HTTP call is made, with that URL. Whatever happens
  later, the returned promise is rejected only with the error of the request's own HTTP
  call, never with the validation error.
\<close>

theorem request_validation_unobserved:
  assumes "\<not> truthy endpoint \<or> \<not> truthy method"
  shows "fst (request E n endpoint method d rt s) = length (requests s) \<and>
     requests (snd (request E n endpoint method d rt s)) = requests s @
       [\<lparr>req_nodeId = n, req_url = urlBuilder E s endpoint, req_method = method, req_data = d,
         req_responseType = rt, req_promise = Pending\<rparr>] \<and>
     (\<not> truthy endpoint \<longrightarrow>
        FloatingRejection (JsError ''endpoint cannot be empty!'')
          \<in> set (effects (snd (request E n endpoint method d rt s)))) \<and>
     (\<not> truthy method \<longrightarrow>
        FloatingRejection (JsError ''method cannot be empty!'')
          \<in> set (effects (snd (request E n endpoint method d rt s)))) \<and>
     (truthy (authCookie s) \<longrightarrow>
        last (effects (snd (request E n endpoint method d rt s))) =
          AxiosRequest (length (requests s)) (urlBuilder E s endpoint) method d
            (or_empty (authCookie s)) n) \<and>
     (\<not> truthy (authCookie s) \<longrightarrow>
        waiters (snd (request E n endpoint method d rt s)) =
          waiters s @ [(length (cookiePromises s), AwaitInRequest (length (requests s)))] \<and>
        length (cookiePromises s) \<in> set (loginsInFlight (snd (request E n endpoint method d rt s))) \<and>
        (\<not> aborted s \<longrightarrow>
           AxiosRequest (length (requests s)) (urlBuilder E s endpoint) method d
             (or_empty (first_set_cookie sc)) n
           \<in> set (effects (step E (LoginDone (length (cookiePromises s)) (LoginResponse 200 sc))
                                (snd (request E n endpoint method d rt s)))))) \<and>
     (\<forall>evs e. req_promise (requests (run E evs (snd (request E n endpoint method d rt s)))
                    ! length (requests s)) = Rejected e \<longrightarrow>
         RequestDone (length (requests s)) (RequestRejected e) \<in> set evs)"
proof -
  let ?s' = "snd (request E n endpoint method d rt s)"
  let ?r = "length (requests s)"
  have 1: "fst (request E n endpoint method d rt s) = ?r"
    by (simp add: request_def Let_def)
  have 2: "requests ?s' = requests s @
       [\<lparr>req_nodeId = n, req_url = urlBuilder E s endpoint, req_method = method, req_data = d,
         req_responseType = rt, req_promise = Pending\<rparr>]"
    by (rule requests_request)
  have 3: "\<not> truthy endpoint \<longrightarrow>
        FloatingRejection (JsError ''endpoint cannot be empty!'') \<in> set (effects ?s')"
    by (auto simp: request_def Let_def axiosRequest_def getAuthCookie_def
        authenticateWithRetry_def issue_def)
  have 4: "\<not> truthy method \<longrightarrow>
        FloatingRejection (JsError ''method cannot be empty!'') \<in> set (effects ?s')"
    by (auto simp: request_def Let_def axiosRequest_def getAuthCookie_def
        authenticateWithRetry_def issue_def)
  have 5: "truthy (authCookie s) \<longrightarrow>
        last (effects ?s') =
          AxiosRequest ?r (urlBuilder E s endpoint) method d (or_empty (authCookie s)) n"
    by (auto simp: request_def Let_def axiosRequest_def getAuthCookie_def
        authenticateWithRetry_def issue_def urlBuilder_def)
  have 6: "\<not> truthy (authCookie s) \<longrightarrow>
        waiters ?s' = waiters s @ [(length (cookiePromises s), AwaitInRequest ?r)] \<and>
        length (cookiePromises s) \<in> set (loginsInFlight ?s') \<and>
        (\<not> aborted s \<longrightarrow>
           AxiosRequest ?r (urlBuilder E s endpoint) method d (or_empty (first_set_cookie sc)) n
           \<in> set (effects (step E (LoginDone (length (cookiePromises s)) (LoginResponse 200 sc)) ?s')))"
  proof (intro impI conjI)
    assume c: "\<not> truthy (authCookie s)"
    let ?p = "length (cookiePromises s)"
    show w: "waiters ?s' = waiters s @ [(?p, AwaitInRequest ?r)]"
      using c by (auto simp: request_def Let_def axiosRequest_def getAuthCookie_def
          authenticateWithRetry_def issue_def)
    show f: "?p \<in> set (loginsInFlight ?s')"
      using c by (auto simp: request_def Let_def axiosRequest_def getAuthCookie_def
          authenticateWithRetry_def issue_def)
    assume a: "\<not> aborted s"
    have cp: "cookiePromises ?s' = cookiePromises s @ [Pending]" "aborted ?s' = aborted s"
      using c by (auto simp: request_def Let_def axiosRequest_def getAuthCookie_def
          authenticateWithRetry_def issue_def)
    let ?t = "?s'\<lparr>loginsInFlight := remove1 ?p (loginsInFlight ?s')\<rparr>
                  \<lparr>authCookie := first_set_cookie sc, authenticated := True\<rparr>"
    have "AxiosRequest ?r (req_url (requests ?t ! ?r)) (req_method (requests ?t ! ?r))
       (req_data (requests ?t ! ?r)) (or_empty (first_set_cookie sc)) (req_nodeId (requests ?t ! ?r))
       \<in> set (effects (resolve_cookie E ?p (first_set_cookie sc) ?t))"
      by (rule resolve_cookie_issues) (simp_all add: w 2 cp)
    then show "AxiosRequest ?r (urlBuilder E s endpoint) method d (or_empty (first_set_cookie sc)) n
           \<in> set (effects (step E (LoginDone ?p (LoginResponse 200 sc)) ?s'))"
      using f a by (simp add: step_def login_done_def login_then_def cp 2)
  qed
  have 7: "\<forall>evs e. req_promise (requests (run E evs ?s') ! ?r) = Rejected e \<longrightarrow>
         RequestDone ?r (RequestRejected e) \<in> set evs"
  proof (intro allI impI)
    fix evs e
    assume a: "req_promise (requests (run E evs ?s') ! ?r) = Rejected e"
    have l: "?r < length (requests ?s')" "req_promise (requests ?s' ! ?r) = Pending"
      by (simp_all add: 2)
    from run_promise[OF l, of E evs] a
    obtain oc where "RequestDone ?r oc \<in> set evs" "settles oc = Rejected e" by auto
    then show "RequestDone ?r (RequestRejected e) \<in> set evs"
      by (cases oc) (simp_all add: settles_def)
  qed
  from 1 2 3 4 5 6 7 show ?thesis by blast
qed

theorem request_validation_unobserved_witness:
  "\<not> truthy (Some []) \<and>
   fst (request E0 ''n1'' (Some []) None None None node1) = 1 \<and>
   req_promise (requests (snd (request E0 ''n1'' (Some []) None None None node1)) ! 1) = Pending \<and>
   effects (snd (request E0 ''n1'' (Some []) None None None node1)) = effects node1 @
     [FloatingRejection (JsError ''endpoint cannot be empty!''),
      FloatingRejection (JsError ''method cannot be empty!''),
      AxiosRequest 1 ''https://10.0.0.1'' None None ''TOKEN123; Path=/'' ''n1'']"
proof -
  have h: "\<not> truthy (Some []) \<or> \<not> truthy None"
    by (simp add: truthy_def)
  have e: "effects (snd (request E0 ''n1'' (Some []) None None None node1)) = effects node1 @
     [FloatingRejection (JsError ''endpoint cannot be empty!''),
      FloatingRejection (JsError ''method cannot be empty!''),
      AxiosRequest 1 ''https://10.0.0.1'' None None ''TOKEN123; Path=/'' ''n1'']"
    by (simp add: node1_simps ac_defs)
  have l: "length (requests node1) = 1"
    by (simp add: node1_simps)
  note t = request_validation_unobserved[OF h, of E0 "''n1''" None None node1]
  from t have a: "fst (request E0 ''n1'' (Some []) None None None node1) = length (requests node1)"
    by (rule conjunct1)
  from t have b: "requests (snd (request E0 ''n1'' (Some []) None None None node1)) =
      requests node1 @
       [\<lparr>req_nodeId = ''n1'', req_url = urlBuilder E0 node1 (Some []), req_method = None,
         req_data = None, req_responseType = None, req_promise = Pending\<rparr>]"
    by (rule conjunct1[OF conjunct2])
  have p: "req_promise (requests (snd (request E0 ''n1'' (Some []) None None None node1)) ! 1) = Pending"
    by (simp add: b l nth_append)
  from a p e l show ?thesis
    by (simp add: truthy_def)
qed

text \<open>
  What the \<open>catch\<close> handler of a request does with a 401, in any state: it clears the
  credential, marks the node unauthenticated, sets one timer for the request without
  looking at \<open>stopped\<close>, and rejects the promise of the request if it is pending.
\<close>

lemma request_catch_401:
  "authCookie (request_catch E r (HttpError 401) s) = None \<and>
   authenticated (request_catch E r (HttpError 401) s) = False \<and>
   timers (request_catch E r (HttpError 401) s) = timers s @ [Resend r] \<and>
   effects (request_catch E r (HttpError 401) s) =
     effects s @ [SetTimeout (Resend r) (login_retry (controller E (controllerType s)))] \<and>
   (r < length (requests s) \<and> req_promise (requests s ! r) = Pending \<longrightarrow>
      req_promise (requests (request_catch E r (HttpError 401) s) ! r) = Rejected (HttpError 401))"
  by (simp add: request_catch_def reject_request_def)

text \<open>
  Claim C1 at a failing input (the code departs from the claim). A consumer's request is
  answered with 401. The handler clears the credential, marks the node unauthenticated and
  sets one timer for sending the request again, with the retry delay of the controller
  type; then it rejects the caller's promise with the 401 error. When the request, sent
  again after a new login, is answered, the promise is still the rejected one.
\<close>

theorem request_401_rejects_caller:
  "authCookie (run E0 trace_401 node0) = None \<and>
   authenticated (run E0 trace_401 node0) = False \<and>
   timers (run E0 trace_401 node0) = [Resend 1] \<and>
   last (effects (run E0 trace_401 node0)) = SetTimeout (Resend 1) 5000 \<and>
   req_promise (requests (run E0 trace_401 node0) ! 1) = Rejected (HttpError 401) \<and>
   last (effects (run E0 trace_401_resent node0)) =
     AxiosRequest 1 ''https://10.0.0.1/proxy/protect/api/cameras'' (Some ''GET'') None
       ''TOKEN456; Path=/'' ''n1'' \<and>
   req_promise (requests (run E0 trace_401_resent node0) ! 1) = Rejected (HttpError 401)"
  by (simp add: trace_401_resent_def trace_401_def node0_simps ac_defs)

subsection \<open>Retries and \<open>close\<close>\<close>

text \<open>
  \<open>close\<close> clears the interval only and leaves the timers of logins and requests set;
  a timer that fires runs its function whether the node is stopped or not.
\<close>

lemma close_keeps_timers:
  "timers (close E s) = timers s \<and> stopped (close E s) \<and> \<not> refreshTimeout (close E s)"
  by (simp add: close_def Let_def)

lemma timer_fires_ignores_stopped:
  "LoginRetry p \<in> set (timers s) \<Longrightarrow>
   effects (timer_fires E (LoginRetry p) s) = effects s @
     [AxiosPostLogin p (urlBuilder E s (Some (login_url (controller E (controllerType s)))))
        (username s) (password s)]"
  by (simp add: timer_fires_def authenticateWithRetry_def urlBuilder_def)

text \<open>
  Claim C2 at failing inputs (the code departs from the claim). What the node does after
  its logout call: when a request in flight at \<open>close\<close> is answered with 401, a timer for
  sending it again is set; a timer of a request that was set before \<open>close\<close> fires
  afterwards and the request is sent again; a retry timer of a login that was set before
  \<open>close\<close> fires afterwards and the login call is made again.
\<close>

theorem retries_after_close:
  "stopped (run E0 trace_close_then_401 node0) \<and>
   after_logout (effects (run E0 trace_close_then_401 node0)) = [SetTimeout (Resend 1) 5000] \<and>
   after_logout (effects (run E0 trace_resend_pending_at_close node0)) =
     [AxiosRequest 1 ''https://10.0.0.1/proxy/protect/api/cameras'' (Some ''GET'') None
        ''TOKEN456; Path=/'' ''n1''] \<and>
   after_logout (effects (run E0 trace_login_retry_at_close node0)) =
     [AxiosPostLogin 0 ''https://10.0.0.1/api/auth/login'' ''admin'' ''secret'']"
  by (simp add: trace_close_then_401_def trace_resend_pending_at_close_def
      trace_login_retry_at_close_def node0_simps ac_defs after_logout_def)

subsection \<open>A login that is answered with a status other than 200\<close>

text \<open>A promise without login call and without retry timer stays pending for ever.\<close>

lemma stuck_authenticateWithRetry: "stuck p s \<Longrightarrow> q \<noteq> p \<Longrightarrow> stuck p (authenticateWithRetry E q s)"
  by (simp add: stuck_def authenticateWithRetry_def)

lemma stuck_getAuthCookie: "stuck p s \<Longrightarrow> stuck p (snd (getAuthCookie E rg s))"
  by (auto simp add: stuck_def getAuthCookie_def authenticateWithRetry_def nth_append)

lemma stuck_issue: "stuck p s \<Longrightarrow> stuck p (issue r c s)"
  by (simp add: stuck_def issue_def)

lemma stuck_axiosRequest: "stuck p s \<Longrightarrow> stuck p (axiosRequest E r s)"
  by (auto simp add: stuck_def axiosRequest_def getAuthCookie_def authenticateWithRetry_def
      issue_def nth_append)

lemma stuck_request: "stuck p s \<Longrightarrow> stuck p (snd (request E n e m d rt s))"
proof -
  assume a: "stuck p s"
  have "stuck p t \<Longrightarrow> stuck p (axiosRequest E r t)" for t r by (rule stuck_axiosRequest)
  moreover have "stuck p (s\<lparr>effects := x\<rparr>)" for x using a by (simp add: stuck_def)
  moreover have "stuck p t \<Longrightarrow> stuck p (t\<lparr>requests := x\<rparr>)" for t x by (simp add: stuck_def)
  moreover have "stuck p t \<Longrightarrow> stuck p (t\<lparr>effects := x\<rparr>)" for t x by (simp add: stuck_def)
  ultimately show ?thesis using a
    by (simp add: request_def Let_def)
qed

lemma stuck_getBootstrap: "stuck p s \<Longrightarrow> stuck p (getBootstrap E s)"
proof -
  assume a: "stuck p s"
  obtain r s' where q: "request E (node_id s) (Some bootstrapURI) (Some ''GET'') None (Some ''json'') s = (r, s')"
    by (cases "request E (node_id s) (Some bootstrapURI) (Some ''GET'') None (Some ''json'') s")
  with stuck_request[OF a, of E "node_id s" "Some bootstrapURI" "Some ''GET''" None "Some ''json''"]
  show ?thesis by (simp add: getBootstrap_def stuck_def)
qed

lemma stuck_run_waiter: "stuck p s \<Longrightarrow> stuck p (run_waiter E v w s)"
proof (cases w)
  case (AwaitInRequest r)
  assume "stuck p s"
  with AwaitInRequest show ?thesis using stuck_issue by (simp add: run_waiter_def)
next
  case (RefreshThen init)
  assume a: "stuck p s"
  then have b: "stuck p (s\<lparr>initialized := True\<rparr>)" by (simp add: stuck_def)
  show ?thesis
    using stuck_getBootstrap[OF b, of E] stuck_getBootstrap[OF a, of E]
    by (simp add: run_waiter_def RefreshThen)
qed

lemma stuck_fold_waiters: "stuck p s \<Longrightarrow> stuck p (fold (run_waiter E v) ws s)"
  by (induction ws arbitrary: s) (simp_all add: stuck_run_waiter)

lemma stuck_resolve_cookie: "stuck p s \<Longrightarrow> q \<noteq> p \<Longrightarrow> stuck p (resolve_cookie E q v s)"
proof -
  assume a: "stuck p s" and n: "q \<noteq> p"
  then have "stuck p (s\<lparr>cookiePromises := (cookiePromises s)[q := Fulfilled v],
                waiters := filter (\<lambda>pw. fst pw \<noteq> q) (waiters s)\<rparr>)"
    by (simp add: stuck_def)
  from stuck_fold_waiters[OF this] a show ?thesis by (simp add: resolve_cookie_def)
qed

lemma stuck_refresh: "stuck p s \<Longrightarrow> stuck p (refresh E init s)"
proof -
  assume a: "stuck p s"
  obtain cp s' where g: "getAuthCookie E (Some True) s = (cp, s')"
    by (cases "getAuthCookie E (Some True) s")
  with stuck_getAuthCookie[OF a, of E "Some True"] have c: "stuck p s'" by simp
  show ?thesis
  proof (cases cp)
    case (Settled c')
    with g stuck_run_waiter[OF c] show ?thesis by (simp add: refresh_def)
  next
    case (Created q)
    with g c show ?thesis by (simp add: refresh_def stuck_def)
  qed
qed

lemma stuck_close: "stuck p s \<Longrightarrow> stuck p (close E s)"
  by (simp add: close_def stuck_def Let_def)

lemma stuck_login_done: "stuck p s \<Longrightarrow> stuck p (login_done E q oc s)"
proof (cases "q \<in> set (loginsInFlight s)")
  case False
  then show "stuck p s \<Longrightarrow> ?thesis" by (simp add: login_done_def)
next
  case True
  assume a: "stuck p s"
  with True have n: "q \<noteq> p" by (auto simp: stuck_def)
  let ?s0 = "s\<lparr>loginsInFlight := remove1 q (loginsInFlight s)\<rparr>"
  have s0: "stuck p ?s0" using a by (auto simp: stuck_def dest: notin_set_remove1)
  have c: "stuck p (login_catch E q r ?s0)" for r
    using s0 n by (simp add: login_catch_def Let_def stuck_def)
  have t: "stuck p (login_then E q st sc ?s0)" for st sc
  proof (cases "st = 200")
    case False
    with s0 show ?thesis by (simp add: login_then_def)
  next
    case True
    from s0 have "stuck p (?s0\<lparr>authCookie := first_set_cookie sc, authenticated := True\<rparr>)"
      by (simp add: stuck_def)
    from stuck_resolve_cookie[OF this n] True show ?thesis
      by (simp add: login_then_def)
  qed
  show ?thesis
    using True c t by (simp add: login_done_def split: login_outcome.splits)
qed

lemma stuck_request_done: "stuck p s \<Longrightarrow> stuck p (request_done E r oc s)"
proof (cases "r \<in> set (requestsInFlight s)")
  case False
  then show "stuck p s \<Longrightarrow> ?thesis" by (simp add: request_done_def)
next
  case True
  assume a: "stuck p s"
  show ?thesis
  proof (cases oc)
    case (Response d)
    with True a show ?thesis
      by (simp add: request_done_def request_then_def resolve_request_def Let_def stuck_def)
  next
    case (RequestRejected e)
    with True a show ?thesis
      by (cases e)
         (simp_all add: request_done_def request_catch_def reject_request_def stuck_def)
  qed
qed

lemma stuck_timer_fires: "stuck p s \<Longrightarrow> stuck p (timer_fires E t s)"
proof (cases "t \<in> set (timers s)")
  case False
  then show "stuck p s \<Longrightarrow> ?thesis" by (simp add: timer_fires_def)
next
  case True
  assume a: "stuck p s"
  then have b: "stuck p (s\<lparr>timers := remove1 t (timers s)\<rparr>)"
    by (auto simp: stuck_def dest: notin_set_remove1)
  show ?thesis
  proof (cases t)
    case (LoginRetry q)
    with True a have "q \<noteq> p" by (auto simp: stuck_def)
    from stuck_authenticateWithRetry[OF b this] True LoginRetry show ?thesis
      by (simp add: timer_fires_def)
  next
    case (Resend r)
    with True stuck_axiosRequest[OF b] show ?thesis
      by (simp add: timer_fires_def)
  qed
qed

lemma stuck_step: "stuck p s \<Longrightarrow> stuck p (step E ev s)"
  by (cases ev)
     (simp_all add: step_def stuck_getAuthCookie stuck_request stuck_login_done
        stuck_request_done stuck_timer_fires stuck_refresh stuck_close)

lemma stuck_run: "stuck p s \<Longrightarrow> stuck p (run E evs s)"
  by (induction evs arbitrary: s) (simp_all add: run_def stuck_step)

text \<open>
  For comparison, what the \<open>catch\<close> handler of a login does, which is what the claim
  describes: it clears the credential, marks the node unauthenticated and, unless the node
  is stopped, sets one retry timer with the delay of the controller type.
\<close>

lemma login_catch_retries:
  "authCookie (login_catch E p reason s) = None \<and>
   authenticated (login_catch E p reason s) = False \<and>
   timers (login_catch E p reason s) = (if stopped s then timers s else timers s @ [LoginRetry p]) \<and>
   effects (login_catch E p reason s) =
     (if stopped s then effects s
      else effects s @ [SetTimeout (LoginRetry p) (login_retry (controller E (controllerType s)))]) \<and>
   cookiePromises (login_catch E p reason s) = cookiePromises s"
  by (simp add: login_catch_def Let_def)

text \<open>
  The \<open>then\<close> handler does nothing for a status other than 200, and so the promise of
  the first login of any node stays pending for ever after such a response.
\<close>

lemma login_then_other_status: "status \<noteq> 200 \<Longrightarrow> login_then E p status set_cookie s = s"
  by (simp add: login_then_def)

lemma first_login_other_status_hangs:
  assumes "status \<noteq> 200"
  shows "stuck 0 (run E (LoginDone 0 (LoginResponse status set_cookie) # evs) (body E cfg i u pw))"
proof -
  have "stuck 0 (step E (LoginDone 0 (LoginResponse status set_cookie)) (body E cfg i u pw))"
    using assms
    by (simp add: stuck_def body_def refresh_def getAuthCookie_def authenticateWithRetry_def
        truthy_def step_def login_done_def login_then_def)
  from stuck_run[OF this, of E evs] show ?thesis by (simp add: run_def)
qed

text \<open>
  Claim C5 at a failing input (the code departs from the claim). The first login of a node
  is answered with status 204. The credential is absent as before, but no retry timer is
  set, no login call is in flight and the node is not stopped; no effect is added. Whatever
  happens afterwards, the promise that \<open>getAuthCookie\<close> returned stays pending.
\<close>

theorem login_status_204_hangs:
  "authCookie (run E0 [LoginDone 0 (LoginResponse 204 None)] node0) = None \<and>
   timers (run E0 [LoginDone 0 (LoginResponse 204 None)] node0) = [] \<and>
   loginsInFlight (run E0 [LoginDone 0 (LoginResponse 204 None)] node0) = [] \<and>
   effects (run E0 [LoginDone 0 (LoginResponse 204 None)] node0) = effects node0 \<and>
   stopped (run E0 [LoginDone 0 (LoginResponse 204 None)] node0) = False \<and>
   cookiePromises (run E0 (LoginDone 0 (LoginResponse 204 None) # evs) node0) ! 0 = Pending"
proof -
  let ?s = "run E0 [LoginDone 0 (LoginResponse 204 None)] node0"
  have "stuck 0 ?s" by (simp add: node0_simps ac_defs stuck_def)
  from stuck_run[OF this, of E0 evs]
  have "cookiePromises (run E0 (LoginDone 0 (LoginResponse 204 None) # evs) node0) ! 0 = Pending"
    by (simp add: stuck_def run_def)
  then show ?thesis by (simp add: node0_simps ac_defs)
qed

end
